theory Spec2Isabelle
  imports
    Complex_Main
    "HOL-Library.Char_ord"
    "HOL-Library.List_Lexorder"
    "HOL-Library.Product_Lexorder"
    "HOL-Library.Multiset"
begin

section \<open>xacct.py: values, lines and exceptions\<close>

text \<open>
  \<^verbatim>\<open>xacct.py\<close> reads the pipe-separated output of \<^verbatim>\<open>sacct\<close> with
  \<^verbatim>\<open>csv.DictReader\<close>, so every field starts as a Python \<^verbatim>\<open>str\<close>.
  \<^verbatim>\<open>normalizeMem\<close> replaces the two memory fields by an \<^verbatim>\<open>int\<close> (or by the
  empty string), hence a field of a line holds a string or an integer.

  A Python \<^verbatim>\<open>str\<close> is modelled by a HOL \<open>string\<close>: a list of characters with
  codes below 256, compared by code (\<open>Char_ord\<close>) and lexicographically
  (\<open>List_Lexorder\<close>), which is Python's order on strings of such characters.

  A line is the \<^verbatim>\<open>OrderedDict\<close> built at lines 301 to 303 of the source: the columns
  in display order with their values, an association list.
\<close>

datatype val = S string | I int

type_synonym line = "(string \<times> val) list"

datatype error =
    KeyError string
  | TypeError
  | ValueError
  | AttributeError
  | OverflowError
  | AssertionError
  | IndexError
  | Exception string

text \<open>\<^verbatim>\<open>line[key]\<close>: the value stored under the key, or \<^verbatim>\<open>KeyError\<close>.\<close>

definition getitem :: "line \<Rightarrow> string \<Rightarrow> error + val" where
  "getitem l k = (case map_of l k of None \<Rightarrow> Inl (KeyError k) | Some v \<Rightarrow> Inr v)"

text \<open>\<^verbatim>\<open>key in line\<close>.\<close>

definition has_key :: "line \<Rightarrow> string \<Rightarrow> bool" where
  "has_key l k = (map_of l k \<noteq> None)"

text \<open>
  \<^verbatim>\<open>line[key] = v\<close> on an ordered dictionary: an existing key keeps its position,
  a new key goes last.
\<close>

fun setitem :: "line \<Rightarrow> string \<Rightarrow> val \<Rightarrow> line" where
  "setitem [] k v = [(k, v)]"
| "setitem ((k', v') # l) k v = (if k' = k then (k, v) # l else (k', v') # setitem l k v)"

section \<open>Strings\<close>

text \<open>
  The characters \<^verbatim>\<open>str.isspace\<close> accepts, among those with codes below 256:
  TAB to CR, FS to US, the blank, NEL and the no-break space.
\<close>

definition is_space :: "char \<Rightarrow> bool" where
  "is_space c = (let n = (of_char c :: nat) in
     (9 \<le> n \<and> n \<le> 13) \<or> (28 \<le> n \<and> n \<le> 32) \<or> n = 133 \<or> n = 160)"

definition is_digit :: "char \<Rightarrow> bool" where
  "is_digit c = (48 \<le> (of_char c :: nat) \<and> (of_char c :: nat) \<le> 57)"

definition digit_val :: "char \<Rightarrow> nat" where
  "digit_val c = of_char c - 48"

definition digit_char :: "nat \<Rightarrow> char" where
  "digit_char d = char_of (48 + d)"

text \<open>\<^verbatim>\<open>s.strip()\<close> and \<^verbatim>\<open>s.strip(c)\<close> for a single character \<^verbatim>\<open>c\<close>.\<close>

definition strip_where :: "(char \<Rightarrow> bool) \<Rightarrow> string \<Rightarrow> string" where
  "strip_where p s = rev (dropWhile p (rev (dropWhile p s)))"

definition strip :: "string \<Rightarrow> string" where
  "strip s = strip_where is_space s"


text \<open>\<^verbatim>\<open>s.endswith(suffix)\<close> and \<^verbatim>\<open>s.startswith(prefix)\<close>.\<close>

definition endswith :: "string \<Rightarrow> string \<Rightarrow> bool" where
  "endswith s suffix =
     (length suffix \<le> length s \<and> drop (length s - length suffix) s = suffix)"

definition startswith :: "string \<Rightarrow> string \<Rightarrow> bool" where
  "startswith s prefix = (take (length prefix) s = prefix)"

text \<open>\<^verbatim>\<open>sub in s\<close> for a non-empty \<^verbatim>\<open>sub\<close>: some suffix of \<^verbatim>\<open>s\<close> starts with it.\<close>

fun contains :: "string \<Rightarrow> string \<Rightarrow> bool" where
  "contains sub [] = (sub = [])"
| "contains sub (c # s) = (startswith (c # s) sub \<or> contains sub s)"

text \<open>
  \<^verbatim>\<open>s.replace(old, '')\<close> and \<^verbatim>\<open>re.sub(old, '', s)\<close> for a literal, non-empty
  \<^verbatim>\<open>old\<close>: the occurrences are removed from left to right, without overlap.
\<close>

fun remove_all :: "string \<Rightarrow> string \<Rightarrow> string" where
  "remove_all old [] = []"
| "remove_all old (c # s) =
     (if old \<noteq> [] \<and> startswith (c # s) old
      then remove_all old (drop (length old - 1) s)
      else c # remove_all old s)"

text \<open>\<^verbatim>\<open>str(n)\<close> for an integer: the decimal digits, with a minus sign when negative.\<close>

fun show_nat :: "nat \<Rightarrow> string" where
  "show_nat n = (if n < 10 then [digit_char n] else show_nat (n div 10) @ [digit_char (n mod 10)])"

definition show_int :: "int \<Rightarrow> string" where
  "show_int i = (if i < 0 then CHR ''-'' # show_nat (nat (- i)) else show_nat (nat i))"

text \<open>\<^verbatim>\<open>str(x)\<close> for the value of a field.\<close>

fun str :: "val \<Rightarrow> string" where
  "str (S s) = s"
| "str (I i) = show_int i"

section \<open>Numerals: \<^verbatim>\<open>int(s)\<close> and \<^verbatim>\<open>float(s)\<close>\<close>

text \<open>
  A digit part is a non-empty run of decimal digits in which single underscores may
  stand between two digits.
\<close>

fun underscores_ok :: "string \<Rightarrow> bool" where
  "underscores_ok [] = False"
| "underscores_ok [c] = is_digit c"
| "underscores_ok (c # d # s) =
     (if is_digit c then underscores_ok (d # s)
      else c = CHR ''_'' \<and> is_digit d \<and> underscores_ok (d # s))"

definition nat_of_digits :: "string \<Rightarrow> nat" where
  "nat_of_digits s = foldl (\<lambda>a c. 10 * a + digit_val c) 0 s"

definition digitpart :: "string \<Rightarrow> nat option" where
  "digitpart s =
     (if s \<noteq> [] \<and> is_digit (hd s) \<and> underscores_ok s
      then Some (nat_of_digits (filter (\<lambda>c. c \<noteq> CHR ''_'') s))
      else None)"

text \<open>An optional sign: whether it is a minus, and the rest.\<close>

fun sign :: "string \<Rightarrow> bool \<times> string" where
  "sign [] = (False, [])"
| "sign (c # s) =
     (if c = CHR ''-'' then (True, s) else if c = CHR ''+'' then (False, s) else (False, c # s))"

text \<open>\<^verbatim>\<open>int(s)\<close> in base 10.\<close>

definition py_int :: "string \<Rightarrow> error + int" where
  "py_int s =
     (case sign (strip s) of (neg, u) \<Rightarrow>
        (case digitpart u of
           None \<Rightarrow> Inl ValueError
         | Some n \<Rightarrow> Inr (if neg then - int n else int n)))"


definition lower :: "string \<Rightarrow> string" where
  "lower s = map (\<lambda>c. if 65 \<le> (of_char c :: nat) \<and> (of_char c :: nat) \<le> 90
                       then char_of ((of_char c :: nat) + 32) else c) s"








section \<open>\<^verbatim>\<open>normalizeMem\<close>\<close>


section \<open>The merge of batch lines into job lines\<close>

text \<open>
  \<^verbatim>\<open>
  def fillInJob(jobid, batchid):
      if 'MaxRSS' in jobid:
          jobid['MaxRSS']= batchid['MaxRSS']
      return jobid
  \<close>
\<close>

definition fillInJob :: "line \<Rightarrow> line \<Rightarrow> error + line" where
  "fillInJob jobid batchid =
     (if has_key jobid ''MaxRSS'' then
        (case getitem batchid ''MaxRSS'' of
           Inl e \<Rightarrow> Inl e
         | Inr v \<Rightarrow> Inr (setitem jobid ''MaxRSS'' v))
      else Inr jobid)"

text \<open>
  The loop at lines 307 to 332 of the source keeps the job line met last in
  \<^verbatim>\<open>idjob\<close> and collects the merged lines in \<^verbatim>\<open>sacct_mrg\<close>. No exception
  is caught there, so an exception ends the run: the model returns it together with the
  lines \<^verbatim>\<open>print\<close> wrote to the standard output just before.
  \<^verbatim>\<open>
  idjob= None
  sacct_mrg= []
  for line in sacct_out:
      if args.fromId is not None and args.fromId >= int(line['JobID'].replace('.batch', '')):
          continue
      if '.batch' not in line['JobID']:
              if idjob is not None:
                  sacct_mrg.append(idjob)
              idjob= line
      else:
          if idjob['JobID'] == line['JobID'].replace('.batch', ''):
              sacct_mrg.append(fillInJob(idjob, line))
          else:
              print(idjob)
              print(line)
              raise Exception("Cannot find job id")
          idjob= None
  if idjob is not None:
      sacct_mrg.append(idjob)
  \<close>
\<close>

datatype abort = Abort error "line list"

record merge_state =
  idjob :: "line option"
  sacct_mrg :: "line list"

text \<open>
  \<^verbatim>\<open>line['JobID'].replace('.batch', '')\<close>; an integer has no method
  \<^verbatim>\<open>replace\<close>.
\<close>

definition stripped_id :: "line \<Rightarrow> error + string" where
  "stripped_id l =
     (case getitem l ''JobID'' of
        Inl e \<Rightarrow> Inl e
      | Inr (I i) \<Rightarrow> Inl AttributeError
      | Inr (S s) \<Rightarrow> Inr (remove_all ''.batch'' s))"

text \<open>The test that leads to \<^verbatim>\<open>continue\<close>.\<close>

definition skipped :: "int option \<Rightarrow> line \<Rightarrow> error + bool" where
  "skipped fromId l =
     (case fromId of
        None \<Rightarrow> Inr False
      | Some f \<Rightarrow>
          (case stripped_id l of
             Inl e \<Rightarrow> Inl e
           | Inr s \<Rightarrow> (case py_int s of Inl e \<Rightarrow> Inl e | Inr n \<Rightarrow> Inr (f \<ge> n))))"

text \<open>\<^verbatim>\<open>'.batch' in line['JobID']\<close>; an integer is not iterable.\<close>

definition is_batch :: "line \<Rightarrow> error + bool" where
  "is_batch l =
     (case getitem l ''JobID'' of
        Inl e \<Rightarrow> Inl e
      | Inr (I i) \<Rightarrow> Inl TypeError
      | Inr (S s) \<Rightarrow> Inr (contains ''.batch'' s))"

text \<open>\<^verbatim>\<open>sacct_mrg\<close> once the pending job line, if any, is appended.\<close>

definition flush :: "merge_state \<Rightarrow> line list" where
  "flush st = (case idjob st of None \<Rightarrow> sacct_mrg st | Some j \<Rightarrow> sacct_mrg st @ [j])"

text \<open>
  One round of the loop. Subscripting \<^verbatim>\<open>idjob\<close> while it is \<^verbatim>\<open>None\<close> raises
  \<^verbatim>\<open>TypeError\<close>.
\<close>

definition merge_step :: "int option \<Rightarrow> merge_state \<Rightarrow> line \<Rightarrow> abort + merge_state" where
  "merge_step fromId st l =
     (case skipped fromId l of
        Inl e \<Rightarrow> Inl (Abort e [])
      | Inr True \<Rightarrow> Inr st
      | Inr False \<Rightarrow>
          (case is_batch l of
             Inl e \<Rightarrow> Inl (Abort e [])
           | Inr False \<Rightarrow> Inr \<lparr>idjob = Some l, sacct_mrg = flush st\<rparr>
           | Inr True \<Rightarrow>
               (case idjob st of
                  None \<Rightarrow> Inl (Abort TypeError [])
                | Some j \<Rightarrow>
                    (case getitem j ''JobID'' of
                       Inl e \<Rightarrow> Inl (Abort e [])
                     | Inr jid \<Rightarrow>
                         (case stripped_id l of
                            Inl e \<Rightarrow> Inl (Abort e [])
                          | Inr s \<Rightarrow>
                              if jid = S s then
                                (case fillInJob j l of
                                   Inl e \<Rightarrow> Inl (Abort e [])
                                 | Inr j' \<Rightarrow>
                                     Inr \<lparr>idjob = None, sacct_mrg = sacct_mrg st @ [j']\<rparr>)
                              else Inl (Abort (Exception ''Cannot find job id'') [j, l]))))))"

fun merge_loop :: "int option \<Rightarrow> merge_state \<Rightarrow> line list \<Rightarrow> abort + merge_state" where
  "merge_loop fromId st [] = Inr st"
| "merge_loop fromId st (l # ls) =
     (case merge_step fromId st l of
        Inl a \<Rightarrow> Inl a
      | Inr st' \<Rightarrow> merge_loop fromId st' ls)"

definition merge :: "int option \<Rightarrow> line list \<Rightarrow> abort + line list" where
  "merge fromId sacct_out =
     (case merge_loop fromId \<lparr>idjob = None, sacct_mrg = []\<rparr> sacct_out of
        Inl a \<Rightarrow> Inl a
      | Inr st \<Rightarrow> Inr (flush st))"


subsection \<open>What the merge is expected to produce\<close>

text \<open>
  The identifier of a line as text, whether it carries the batch marker, and the
  condition that every marked line comes right after an unmarked line with the same
  identifier once the marker is removed.
\<close>

definition job_id :: "line \<Rightarrow> string" where
  "job_id l = (case map_of l ''JobID'' of Some (S s) \<Rightarrow> s | _ \<Rightarrow> [])"

definition batch_marked :: "line \<Rightarrow> bool" where
  "batch_marked l = contains ''.batch'' (job_id l)"

definition batch_follows_job :: "line list \<Rightarrow> bool" where
  "batch_follows_job ls =
     (\<forall>i < length ls. batch_marked (ls ! i) \<longrightarrow>
        0 < i \<and> \<not> batch_marked (ls ! (i - 1))
        \<and> job_id (ls ! (i - 1)) = remove_all ''.batch'' (job_id (ls ! i)))"

text \<open>
  Every line with the line that follows it, if any; and a job line once it has taken
  the memory usage of a batch line that follows it.
\<close>

fun followers :: "line list \<Rightarrow> (line \<times> line option) list" where
  "followers [] = []"
| "followers [l] = [(l, None)]"
| "followers (l # n # ls) = (l, Some n) # followers (n # ls)"

fun absorbed :: "line \<times> line option \<Rightarrow> line" where
  "absorbed (j, None) = j"
| "absorbed (j, Some b) =
     (if batch_marked b \<and> has_key j ''MaxRSS'' then
        (case map_of b ''MaxRSS'' of None \<Rightarrow> j | Some v \<Rightarrow> setitem j ''MaxRSS'' v)
      else j)"

text \<open>
  The same condition and the same result, told from the left with the pending job line:
  the form the loop invariant needs.
\<close>

fun paired_from :: "line option \<Rightarrow> line list \<Rightarrow> bool" where
  "paired_from prev [] = True"
| "paired_from prev (l # ls) =
     (if batch_marked l then
        (case prev of None \<Rightarrow> False
         | Some j \<Rightarrow> job_id j = remove_all ''.batch'' (job_id l)) \<and> paired_from None ls
      else paired_from (Some l) ls)"

fun merged_from :: "line option \<Rightarrow> line list \<Rightarrow> line list" where
  "merged_from prev [] = (case prev of None \<Rightarrow> [] | Some j \<Rightarrow> [j])"
| "merged_from prev (l # ls) =
     (if batch_marked l then
        (case prev of None \<Rightarrow> [] | Some j \<Rightarrow> [absorbed (j, Some l)]) @ merged_from None ls
      else (case prev of None \<Rightarrow> [] | Some j \<Rightarrow> [j]) @ merged_from (Some l) ls)"

section \<open>The sorter\<close>

text \<open>
  \<^verbatim>\<open>
  args.sort.reverse()
  for s in args.sort:
      rev= False
      if s.endswith('-'):
          rev= True
          s= re.sub('-$', '', s)
      try:
          sacct_mrg= sorted(sacct_mrg, key=lambda k: k[s], reverse= rev)
      except KeyError:
          sys.stderr.write('\nSort key %s not found\n\n' % s)
  \<close>
  The direction and the column of a sort key: on a key that ends with \<^verbatim>\<open>-\<close> the
  substitution removes that last character.
\<close>

definition sort_key_name :: "string \<Rightarrow> bool \<times> string" where
  "sort_key_name s = (if endswith s ''-'' then (True, butlast s) else (False, s))"

text \<open>
  \<^verbatim>\<open>sorted\<close> first calls the key function on every line in turn; the first line
  without the column raises \<^verbatim>\<open>KeyError\<close>.
\<close>

fun key_values :: "string \<Rightarrow> line list \<Rightarrow> error + val list" where
  "key_values s [] = Inr []"
| "key_values s (k # ks) =
     (case getitem k s of
        Inl e \<Rightarrow> Inl e
      | Inr v \<Rightarrow> (case key_values s ks of Inl e \<Rightarrow> Inl e | Inr vs \<Rightarrow> Inr (v # vs)))"

text \<open>
  The keys are then compared with \<^verbatim>\<open><\<close>: two strings lexicographically, two
  integers by value, while a string and an integer cannot be compared
  (\<^verbatim>\<open>TypeError\<close>, which the loop does not catch). A list that holds both kinds
  always has one of each compared, so \<^verbatim>\<open>sorted\<close> succeeds exactly when the keys
  are all strings or all integers.
\<close>

fun all_str :: "val list \<Rightarrow> string list option" where
  "all_str [] = Some []"
| "all_str (S s # vs) = map_option (Cons s) (all_str vs)"
| "all_str (I i # vs) = None"

fun all_int :: "val list \<Rightarrow> int list option" where
  "all_int [] = Some []"
| "all_int (I i # vs) = map_option (Cons i) (all_int vs)"
| "all_int (S s # vs) = None"

text \<open>
  The sort is stable; with \<^verbatim>\<open>reverse=True\<close> the list is reversed, sorted and
  reversed again, which keeps lines with equal keys in their original order.
\<close>

definition stable_sort :: "bool \<Rightarrow> ('k::linorder \<times> 'a) list \<Rightarrow> 'a list" where
  "stable_sort reverse ps =
     map snd (if reverse then rev (sort_key fst (rev ps)) else sort_key fst ps)"

definition sorted_by :: "string \<Rightarrow> bool \<Rightarrow> line list \<Rightarrow> error + line list" where
  "sorted_by s reverse ls =
     (case key_values s ls of
        Inl e \<Rightarrow> Inl e
      | Inr vs \<Rightarrow>
          (case all_str vs of
             Some ss \<Rightarrow> Inr (stable_sort reverse (zip ss ls))
           | None \<Rightarrow>
               (case all_int vs of
                  Some ns \<Rightarrow> Inr (stable_sort reverse (zip ns ls))
                | None \<Rightarrow> Inl TypeError)))"

text \<open>The warning, and the loop: the lines and what has been written to stderr.\<close>

definition not_found :: "string \<Rightarrow> string" where
  "not_found s = [CHR 0x0A] @ ''Sort key '' @ s @ '' not found'' @ [CHR 0x0A, CHR 0x0A]"

fun sort_loop :: "string list \<Rightarrow> line list \<Rightarrow> string list \<Rightarrow> string list \<times> (error + line list)" where
  "sort_loop [] lines stderr = (stderr, Inr lines)"
| "sort_loop (s0 # keys) lines stderr =
     (case sort_key_name s0 of (reverse, s) \<Rightarrow>
        (case sorted_by s reverse lines of
           Inr sorted_lines \<Rightarrow> sort_loop keys sorted_lines stderr
         | Inl (KeyError k) \<Rightarrow> sort_loop keys lines (stderr @ [not_found s])
         | Inl e \<Rightarrow> (stderr, Inl e)))"

definition sorter :: "string list \<Rightarrow> line list \<Rightarrow> string list \<times> (error + line list)" where
  "sorter keys lines = sort_loop (rev keys) lines []"


subsection \<open>What the sorter is expected to produce\<close>

text \<open>
  The value of a column in a line; the order of the values of a column that holds only
  strings or only integers; such a column; and one stable sort of the lines on a key:
  on the stored value (\<open>by_key\<close>), or on the value's text (\<open>by_text\<close>).
\<close>

definition cell :: "line \<Rightarrow> string \<Rightarrow> val" where
  "cell l k = (case map_of l k of Some v \<Rightarrow> v | None \<Rightarrow> S [])"

fun rank :: "val \<Rightarrow> int \<times> string" where
  "rank (S s) = (0, s)"
| "rank (I i) = (i, [])"

definition uniform_column :: "string \<Rightarrow> line list \<Rightarrow> bool" where
  "uniform_column s ls =
     ((\<forall>l \<in> set ls. \<exists>t. map_of l s = Some (S t)) \<or> (\<forall>l \<in> set ls. \<exists>i. map_of l s = Some (I i)))"

definition by_key :: "string \<Rightarrow> line list \<Rightarrow> line list" where
  "by_key k ls =
     (if endswith k ''-''
      then rev (sort_key (\<lambda>l. rank (cell l (butlast k))) (rev ls))
      else sort_key (\<lambda>l. rank (cell l k)) ls)"

definition by_text :: "string \<Rightarrow> line list \<Rightarrow> line list" where
  "by_text k ls =
     (if endswith k ''-''
      then rev (sort_key (\<lambda>l. str (cell l (butlast k))) (rev ls))
      else sort_key (\<lambda>l. str (cell l k)) ls)"

section \<open>The presenter: colours, column widths and rendering\<close>

text \<open>
  \<^verbatim>\<open>
  def colorize(lst):
      xcol= []
      for x in lst:
          if x == 'FAILED':
              x= '\033[31mFAILED\033[0m'
          elif x == 'COMPLETED':
              x= '\033[32mCOMPLETED\033[0m'
          elif x == 'RUNNING':
              x= '\033[94mRUNNING\033[0m'
          xcol.append(x)
      return xcol
  \<close>
\<close>

definition colour :: "string \<Rightarrow> string \<Rightarrow> string" where
  "colour code x = CHR 0x1B # CHR ''['' # code @ ''m'' @ x @ CHR 0x1B # ''[0m''"

definition colorize :: "val list \<Rightarrow> val list" where
  "colorize lst =
     map (\<lambda>x. if x = S ''FAILED'' then S (colour ''31'' ''FAILED'')
              else if x = S ''COMPLETED'' then S (colour ''32'' ''COMPLETED'')
              else if x = S ''RUNNING'' then S (colour ''94'' ''RUNNING'')
              else x) lst"

text \<open>
  \<^verbatim>\<open>re.sub('\\033\\[[;\\d]*m', '', s)\<close>: from left to right, every ESC followed by
  \<^verbatim>\<open>[\<close>, a run of semicolons and digits and the letter \<^verbatim>\<open>m\<close> is removed. The
  run is taken as long as possible; a shorter run would be followed by a semicolon or a
  digit, never by \<^verbatim>\<open>m\<close>, so backtracking finds nothing more.
\<close>

function strip_ansi :: "string \<Rightarrow> string" where
  "strip_ansi [] = []"
| "strip_ansi (c # s) =
     (if c = CHR 0x1B \<and> s \<noteq> [] \<and> hd s = CHR ''[''
         \<and> dropWhile (\<lambda>x. x = CHR '';'' \<or> is_digit x) (tl s) \<noteq> []
         \<and> hd (dropWhile (\<lambda>x. x = CHR '';'' \<or> is_digit x) (tl s)) = CHR ''m''
      then strip_ansi (tl (dropWhile (\<lambda>x. x = CHR '';'' \<or> is_digit x) (tl s)))
      else c # strip_ansi s)"
  by pat_completeness auto
termination
proof (relation "measure length")
  show "wf (measure length)" by simp
next
  fix c :: char and s :: string
  have "length (tl (dropWhile (\<lambda>x. x = CHR '';'' \<or> is_digit x) (tl s))) \<le> length s"
    by (metis (no_types, lifting) diff_le_self dual_order.trans length_dropWhile_le length_tl)
  then show "(tl (dropWhile (\<lambda>x. x = CHR '';'' \<or> is_digit x) (tl s)), c # s) \<in> measure length"
    by simp
next
  fix c :: char and s :: string
  show "(s, c # s) \<in> measure length" by simp
qed

text \<open>
  \<^verbatim>\<open>re.sub('\\.batch$', '', v)\<close>: the pattern's \<^verbatim>\<open>$\<close> matches at the end of the
  string and before a newline that ends the string.
\<close>

definition strip_batch_end :: "string \<Rightarrow> string" where
  "strip_batch_end v =
     (if endswith v ''.batch'' then take (length v - 6) v
      else if endswith v (''.batch'' @ [CHR 0x0A]) then take (length v - 7) v @ [CHR 0x0A]
      else v)"

text \<open>
  \<^verbatim>\<open>
  def getColumnWidths(sacct_out, header, space, no_color):
      hdr= collections.OrderedDict()
      for x in header:
          hdr[x]= x
      data= [hdr]
      for x in sacct_out:
          data.append(x)
      widths= []
      for line in data:
          if len(widths) == 0:
              widths= [0] * len(line)
          assert len(widths) == len(line)
          values= list(line.values())
          if not no_color:
              values= colorize(values)
          for i in range(len(line)):
              v= re.sub('\\033\\[[;\\d]*m', '', str(values[i]))
              if header[i].lower() == 'jobid':
                  v= re.sub('\.batch$', '', v)
              if widths[i] < len(v):
                  widths[i]= len(v)
      widths= [x + space for x in widths]
      return widths
  \<close>
  The widths are lengths and \<^verbatim>\<open>space\<close> is 2 at the only call (line 367): both are
  natural numbers in the model.
\<close>

definition hdr_of :: "string list \<Rightarrow> line" where
  "hdr_of header = foldl (\<lambda>hdr x. setitem hdr x (S x)) [] header"

fun cells_loop :: "string list \<Rightarrow> val list \<Rightarrow> nat list \<Rightarrow> nat list \<Rightarrow> error + nat list" where
  "cells_loop header values [] widths = Inr widths"
| "cells_loop header values (i # rest) widths =
     (if length header \<le> i then Inl IndexError
      else
        (let v0 = strip_ansi (str (values ! i));
             v = (if lower (header ! i) = ''jobid'' then strip_batch_end v0 else v0)
         in cells_loop header values rest
              (if widths ! i < length v then widths[i := length v] else widths)))"

fun widths_loop :: "string list \<Rightarrow> bool \<Rightarrow> line list \<Rightarrow> nat list \<Rightarrow> error + nat list" where
  "widths_loop header no_color [] widths = Inr widths"
| "widths_loop header no_color (line # data) widths =
     (let widths1 = (if length widths = 0 then replicate (length line) 0 else widths) in
      if length widths1 \<noteq> length line then Inl AssertionError
      else
        (let values0 = map snd line;
             values = (if \<not> no_color then colorize values0 else values0)
         in case cells_loop header values [0..<length line] widths1 of
              Inl e \<Rightarrow> Inl e
            | Inr widths2 \<Rightarrow> widths_loop header no_color data widths2))"

definition getColumnWidths :: "line list \<Rightarrow> string list \<Rightarrow> nat \<Rightarrow> bool \<Rightarrow> error + nat list" where
  "getColumnWidths sacct_out header space no_color =
     (case widths_loop header no_color (hdr_of header # sacct_out) [] of
        Inl e \<Rightarrow> Inl e
      | Inr widths \<Rightarrow> Inr (map (\<lambda>x. x + space) widths))"

text \<open>
  \<^verbatim>\<open>
  def tabulate(line, col_widths, asTsv, no_color):
      if asTsv:
          return '\\t'.join([str(x) for x in line])
      if not no_color:
          line= colorize(line)
      exp_widths= []
      for i in range(len(col_widths)):
          offset= len(str(line[i])) - len(re.sub('\\033\\[[;\\d]*m', '', str(line[i])))
          exp_widths.append(col_widths[i] + offset)
      row_fmt= '{:<%s}' * len(exp_widths)
      row_fmt= row_fmt % tuple(exp_widths)
      return row_fmt.format(*line)
  \<close>
  \<^verbatim>\<open>'{:<w}'.format(x)\<close> is \<^verbatim>\<open>str(x)\<close> filled with blanks on the right up to
  the width \<^verbatim>\<open>w\<close>.
\<close>

fun join :: "string \<Rightarrow> string list \<Rightarrow> string" where
  "join sep [] = []"
| "join sep [x] = x"
| "join sep (x # y # rest) = x @ sep @ join sep (y # rest)"

definition ljust :: "nat \<Rightarrow> string \<Rightarrow> string" where
  "ljust w s = s @ replicate (w - length s) CHR '' ''"

definition tabulate :: "val list \<Rightarrow> nat list \<Rightarrow> bool \<Rightarrow> bool \<Rightarrow> error + string" where
  "tabulate line0 col_widths asTsv no_color =
     (if asTsv then Inr (join [CHR 0x09] (map str line0))
      else
        (let line = (if \<not> no_color then colorize line0 else line0) in
         if length line < length col_widths then Inl IndexError
         else
           Inr (concat (map (\<lambda>i.
                  ljust (col_widths ! i
                          + (length (str (line ! i)) - length (strip_ansi (str (line ! i)))))
                    (str (line ! i)))
                [0..<length col_widths]))))"

text \<open>
  \<^verbatim>\<open>s.split(sep)\<close> for a single character: what a reader of the tab-separated
  output does with a line.
\<close>

fun split :: "char \<Rightarrow> string \<Rightarrow> string list" where
  "split sep [] = [[]]"
| "split sep (c # s) =
     (if c = sep then [] # split sep s else (c # hd (split sep s)) # tl (split sep s))"subsection \<open>What the widths are expected to be\<close>

text \<open>
  The printable text of the value in column \<open>i\<close>: without escape sequences and, in the
  \<^verbatim>\<open>JobID\<close> column, without a trailing batch marker. The width of a column before
  padding: the longest printable text among the header's and the rows'.
\<close>

definition printable :: "string list \<Rightarrow> nat \<Rightarrow> val \<Rightarrow> string" where
  "printable header i x =
     (if lower (header ! i) = ''jobid'' then strip_batch_end (strip_ansi (str x))
      else strip_ansi (str x))"

definition column_width :: "string list \<Rightarrow> line list \<Rightarrow> nat \<Rightarrow> nat" where
  "column_width header rows i =
     Max (set (map (\<lambda>values. length (printable header i (values ! i)))
                (map S header # map (map snd) rows)))"

section \<open>Timestamps\<close>

text \<open>
  \<^verbatim>\<open>datetime.datetime.strptime(x, '%Y-%m-%dT%H:%M:%S')\<close> belongs to Python's library.
  It compiles the format to the regular expression
  \<^verbatim>\<open>(\d\d\d\d)-(1[0-2]|0[1-9]|[1-9])-(3[0-1]|[1-2]\d|0[1-9]|[1-9]| [1-9])T(2[0-3]|[0-1]\d|\d):([0-5]\d|\d):(6[0-1]|[0-5]\d|\d)\<close>,
  matches it at the start of the string ignoring case, requires the match to cover the
  whole string, and builds the date and time, which fails for a year 0, a day the month
  does not have and a second above 59. A field may thus have one digit where the format
  shows two.

  A directive reads its field from the front of a string and leaves the rest. The
  alternatives of a field are tried in the pattern's order and the first that matches is
  taken: whenever a two-character alternative matches and what follows does not, a
  one-character alternative would be followed by the second character, a digit, where
  the pattern wants a separator or the end, so it fails as well.
\<close>

type_synonym 'a directive = "string \<Rightarrow> ('a \<times> string) option"

definition one :: "(char \<Rightarrow> bool) \<Rightarrow> nat directive" where
  "one p s = (case s of c # r \<Rightarrow> if p c then Some (digit_val c, r) else None | [] \<Rightarrow> None)"

definition two :: "(char \<Rightarrow> bool) \<Rightarrow> (char \<Rightarrow> bool) \<Rightarrow> nat directive" where
  "two p q s =
     (case s of
        c # d # r \<Rightarrow> if p c \<and> q d then Some (10 * digit_val c + digit_val d, r) else None
      | _ \<Rightarrow> None)"

definition alt :: "'a directive \<Rightarrow> 'a directive \<Rightarrow> 'a directive" where
  "alt f g s = (case f s of Some r \<Rightarrow> Some r | None \<Rightarrow> g s)"

definition between :: "char \<Rightarrow> char \<Rightarrow> char \<Rightarrow> bool" where
  "between lo hi c = (lo \<le> c \<and> c \<le> hi)"

text \<open>A literal character of the format, matched ignoring case.\<close>

definition lit :: "char \<Rightarrow> string \<Rightarrow> string option" where
  "lit c s = (case s of x # r \<Rightarrow> if lower [x] = lower [c] then Some r else None | [] \<Rightarrow> None)"

definition directive_Y :: "nat directive" where
  "directive_Y s =
     (case s of
        a # b # c # d # r \<Rightarrow>
          if is_digit a \<and> is_digit b \<and> is_digit c \<and> is_digit d
          then Some (1000 * digit_val a + 100 * digit_val b + 10 * digit_val c + digit_val d, r)
          else None
      | _ \<Rightarrow> None)"

definition directive_m :: "nat directive" where
  "directive_m =
     alt (two (\<lambda>c. c = CHR ''1'') (between CHR ''0'' CHR ''2''))
    (alt (two (\<lambda>c. c = CHR ''0'') (between CHR ''1'' CHR ''9''))
         (one (between CHR ''1'' CHR ''9'')))"

definition directive_d :: "nat directive" where
  "directive_d =
     alt (two (\<lambda>c. c = CHR ''3'') (between CHR ''0'' CHR ''1''))
    (alt (two (between CHR ''1'' CHR ''2'') is_digit)
    (alt (two (\<lambda>c. c = CHR ''0'') (between CHR ''1'' CHR ''9''))
    (alt (one (between CHR ''1'' CHR ''9''))
         (\<lambda>s. case s of
                c # r \<Rightarrow> if c = CHR '' '' then one (between CHR ''1'' CHR ''9'') r else None
              | [] \<Rightarrow> None))))"

definition directive_H :: "nat directive" where
  "directive_H =
     alt (two (\<lambda>c. c = CHR ''2'') (between CHR ''0'' CHR ''3''))
    (alt (two (between CHR ''0'' CHR ''1'') is_digit)
         (one is_digit))"

definition directive_M :: "nat directive" where
  "directive_M = alt (two (between CHR ''0'' CHR ''5'') is_digit) (one is_digit)"

definition directive_S :: "nat directive" where
  "directive_S =
     alt (two (\<lambda>c. c = CHR ''6'') (between CHR ''0'' CHR ''1''))
    (alt (two (between CHR ''0'' CHR ''5'') is_digit)
         (one is_digit))"

text \<open>The calendar: leap years, the days of a month, and the ordinal of a date.\<close>

definition is_leap :: "nat \<Rightarrow> bool" where
  "is_leap y = (y mod 4 = 0 \<and> (y mod 100 \<noteq> 0 \<or> y mod 400 = 0))"

definition days_in_month :: "nat \<Rightarrow> nat \<Rightarrow> nat" where
  "days_in_month y m =
     (if m = 2 then (if is_leap y then 29 else 28)
      else if m = 4 \<or> m = 6 \<or> m = 9 \<or> m = 11 then 30 else 31)"

type_synonym datetime = "nat \<times> nat \<times> nat \<times> nat \<times> nat \<times> nat"

definition strptime :: "string \<Rightarrow> datetime option" where
  "strptime s =
     Option.bind (directive_Y s) (\<lambda>(year, s1).
     Option.bind (lit CHR ''-'' s1) (\<lambda>s2.
     Option.bind (directive_m s2) (\<lambda>(month, s3).
     Option.bind (lit CHR ''-'' s3) (\<lambda>s4.
     Option.bind (directive_d s4) (\<lambda>(day, s5).
     Option.bind (lit CHR ''T'' s5) (\<lambda>s6.
     Option.bind (directive_H s6) (\<lambda>(hour, s7).
     Option.bind (lit CHR '':'' s7) (\<lambda>s8.
     Option.bind (directive_M s8) (\<lambda>(minute, s9).
     Option.bind (lit CHR '':'' s9) (\<lambda>s10.
     Option.bind (directive_S s10) (\<lambda>(second, s11).
       if s11 = [] \<and> 1 \<le> year \<and> day \<le> days_in_month year month \<and> second \<le> 59
       then Some (year, month, day, hour, minute, second)
       else None)))))))))))"

text \<open>
  \<^verbatim>\<open>strftime('%a')\<close> in the C locale: day 1 of year 1 is a Monday.
\<close>

definition toordinal :: "nat \<Rightarrow> nat \<Rightarrow> nat \<Rightarrow> nat" where
  "toordinal y m d =
     (y - 1) * 365 + (y - 1) div 4 - (y - 1) div 100 + (y - 1) div 400
     + sum_list (map (days_in_month y) [1..<m]) + d"

definition weekday_name :: "nat \<Rightarrow> nat \<Rightarrow> nat \<Rightarrow> string" where
  "weekday_name y m d =
     [''Mon'', ''Tue'', ''Wed'', ''Thu'', ''Fri'', ''Sat'', ''Sun''] ! ((toordinal y m d + 6) mod 7)"




text \<open>
  The substitutions of \<^verbatim>\<open>simplify_datetime\<close>: \<^verbatim>\<open>re.sub('T', ' ', s)\<close>;
  \<^verbatim>\<open>re.sub('.*T', '', s)\<close>, which in every line of \<^verbatim>\<open>s\<close> that holds a
  \<^verbatim>\<open>T\<close> removes everything up to the last one; and
  \<^verbatim>\<open>re.sub('\d\d\d\d-\d\d-', '', s)\<close>.
\<close>

definition sub_T :: "string \<Rightarrow> string" where
  "sub_T s = map (\<lambda>c. if c = CHR ''T'' then CHR '' '' else c) s"

definition after_last_T :: "string \<Rightarrow> string" where
  "after_last_T s =
     (if CHR ''T'' \<in> set s then rev (takeWhile (\<lambda>c. c \<noteq> CHR ''T'') (rev s)) else s)"

definition sub_upto_T :: "string \<Rightarrow> string" where
  "sub_upto_T s = join [CHR 0x0A] (map after_last_T (split (CHR 0x0A) s))"

fun sub_year_month :: "string \<Rightarrow> string" where
  "sub_year_month (a # b # c # d # e # f # g # h # s) =
     (if is_digit a \<and> is_digit b \<and> is_digit c \<and> is_digit d \<and> e = CHR ''-''
         \<and> is_digit f \<and> is_digit g \<and> h = CHR ''-''
      then sub_year_month s
      else a # sub_year_month (b # c # d # e # f # g # h # s))"
| "sub_year_month s = s"

text \<open>
  \<^verbatim>\<open>
  def simplify_datetime(data, datetime_column):
      dt= []
      is_date= []
      for x in data:
          try:
              xdt= datetime.datetime.strptime(x[datetime_column], '%Y-%m-%dT%H:%M:%S').date()
              is_date.append(True)
          except:
              xdt= x[datetime_column]
              is_date.append(False)
          dt.append(xdt)
      same_year= True
      same_month= True
      same_day= True
      for i in range(len(dt)):
          x= dt[i]
          if is_date[i]:
              if same_year and x.year != datetime.date.today().year:
                  same_year= False
              if same_month and x.month != datetime.date.today().month:
                  same_month= False
              if same_day and x.day != datetime.date.today().day:
                  same_day= False
      simple= []
      for i in range(len(data)):
          line= data[i]
          if is_date[i]:
              if same_year and same_month and same_day:
                  line[datetime_column]= re.sub('.*T', '', line[datetime_column])
              elif same_year and same_month:
                  weekday_name= datetime.datetime.strptime(line[datetime_column], '%Y-%m-%dT%H:%M:%S').strftime('%a')
                  line[datetime_column]= re.sub('\d\d\d\d-\d\d-', '', line[datetime_column])
                  line[datetime_column]= weekday_name + ' ' + re.sub('T', ' ', line[datetime_column])
              else:
                  line[datetime_column]= re.sub('T', ' ', line[datetime_column])
          else:
              line[datetime_column]= re.sub('Unknown', '', line[datetime_column])
          simple.append(line)
      return simple
  \<close>
  The first loop: the date of every line, \<^verbatim>\<open>None\<close> where the value is no
  timestamp. A line without the column raises \<^verbatim>\<open>KeyError\<close> again inside the
  handler. Today's date is a parameter of the model.
\<close>

fun parse_column :: "string \<Rightarrow> line list \<Rightarrow> error + (nat \<times> nat \<times> nat) option list" where
  "parse_column datetime_column [] = Inr []"
| "parse_column datetime_column (x # data) =
     (case getitem x datetime_column of
        Inl e \<Rightarrow> Inl e
      | Inr v \<Rightarrow>
          (case parse_column datetime_column data of
             Inl e \<Rightarrow> Inl e
           | Inr dt \<Rightarrow>
               Inr ((case v of
                       S s \<Rightarrow> map_option (\<lambda>(y, m, d, t). (y, m, d)) (strptime s)
                     | I i \<Rightarrow> None) # dt)))"

text \<open>The third loop; a substitution in an integer raises \<^verbatim>\<open>TypeError\<close>.\<close>

definition simplify_value :: "bool \<Rightarrow> bool \<Rightarrow> bool \<Rightarrow> bool \<Rightarrow> val \<Rightarrow> error + val" where
  "simplify_value same_year same_month same_day is_date v =
     (case v of
        I i \<Rightarrow> Inl TypeError
      | S s \<Rightarrow>
          if is_date then
            (if same_year \<and> same_month \<and> same_day then Inr (S (sub_upto_T s))
             else if same_year \<and> same_month then
               (case strptime s of
                  None \<Rightarrow> Inl ValueError
                | Some (y, m, d, t) \<Rightarrow>
                    Inr (S (weekday_name y m d @ '' '' @ sub_T (sub_year_month s))))
             else Inr (S (sub_T s)))
          else Inr (S (remove_all ''Unknown'' s)))"

fun simplify_lines ::
  "bool \<Rightarrow> bool \<Rightarrow> bool \<Rightarrow> string \<Rightarrow> line list \<Rightarrow> bool list \<Rightarrow> error + line list" where
  "simplify_lines sy sm sd datetime_column (line # data) (is_date # flags) =
     (case getitem line datetime_column of
        Inl e \<Rightarrow> Inl e
      | Inr v \<Rightarrow>
          (case simplify_value sy sm sd is_date v of
             Inl e \<Rightarrow> Inl e
           | Inr v' \<Rightarrow>
               (case simplify_lines sy sm sd datetime_column data flags of
                  Inl e \<Rightarrow> Inl e
                | Inr simple \<Rightarrow> Inr (setitem line datetime_column v' # simple))))"
| "simplify_lines sy sm sd datetime_column data flags = Inr []"

definition simplify_datetime :: "nat \<times> nat \<times> nat \<Rightarrow> line list \<Rightarrow> string \<Rightarrow> error + line list" where
  "simplify_datetime today data datetime_column =
     (case parse_column datetime_column data of
        Inl e \<Rightarrow> Inl e
      | Inr dt \<Rightarrow>
          simplify_lines
            (list_all (\<lambda>x. case x of None \<Rightarrow> True | Some (y, m, d) \<Rightarrow> y = fst today) dt)
            (list_all (\<lambda>x. case x of None \<Rightarrow> True | Some (y, m, d) \<Rightarrow> m = fst (snd today)) dt)
            (list_all (\<lambda>x. case x of None \<Rightarrow> True | Some (y, m, d) \<Rightarrow> d = snd (snd today)) dt)
            datetime_column data (map (\<lambda>x. x \<noteq> None) dt))"


subsection \<open>What the simplified timestamps are expected to be\<close>

text \<open>
  The timestamp a line holds in a column and its date; the abbreviated weekday of a
  timestamp; the timestamps written exactly as \<^verbatim>\<open>YYYY-MM-DDTHH:MM:SS\<close>; and two
  renderings of such a timestamp: weekday, day of the month and time, or weekday and
  time only.
\<close>

definition stamp :: "line \<Rightarrow> string \<Rightarrow> string" where
  "stamp l c = (case map_of l c of Some (S v) \<Rightarrow> v | _ \<Rightarrow> [])"

definition date_of :: "string \<Rightarrow> (nat \<times> nat \<times> nat) option" where
  "date_of v = map_option (\<lambda>(y, m, d, t). (y, m, d)) (strptime v)"

definition weekday_abbr :: "string \<Rightarrow> string" where
  "weekday_abbr v = (case date_of v of Some (y, m, d) \<Rightarrow> weekday_name y m d | None \<Rightarrow> [])"

fun iso_padded :: "string \<Rightarrow> bool" where
  "iso_padded [y1, y2, y3, y4, a, m1, m2, b, d1, d2, t, h1, h2, c, n1, n2, e, s1, s2] =
     (is_digit y1 \<and> is_digit y2 \<and> is_digit y3 \<and> is_digit y4 \<and> a = CHR ''-''
      \<and> is_digit m1 \<and> is_digit m2 \<and> b = CHR ''-''
      \<and> is_digit d1 \<and> is_digit d2 \<and> t = CHR ''T''
      \<and> is_digit h1 \<and> is_digit h2 \<and> c = CHR '':''
      \<and> is_digit n1 \<and> is_digit n2 \<and> e = CHR '':''
      \<and> is_digit s1 \<and> is_digit s2)"
| "iso_padded v = False"

definition day_and_time :: "string \<Rightarrow> string" where
  "day_and_time v = weekday_abbr v @ '' '' @ take 2 (drop 8 v) @ '' '' @ drop 11 v"

definition weekday_and_time :: "string \<Rightarrow> string" where
  "weekday_and_time v = weekday_abbr v @ '' '' @ drop 11 v"


chapter \<open>Properties\<close>

section \<open>Strings and numerals\<close>





















section \<open>Memory normalisation\<close>




section \<open>The merge\<close>

lemma map_of_setitem: "map_of (setitem l k v) = (map_of l)(k \<mapsto> v)"
  by (induction l) auto

lemma keys_setitem: "has_key l k \<Longrightarrow> map fst (setitem l k v) = map fst l"
  by (induction l) (auto simp: has_key_def)

lemma has_key_keys: "has_key l k \<longleftrightarrow> k \<in> set (map fst l)"
  by (simp add: has_key_def map_of_eq_None_iff)

lemma text_id:
  assumes "map_of l ''JobID'' = Some (S s)"
  shows "getitem l ''JobID'' = Inr (S s)" "stripped_id l = Inr (remove_all ''.batch'' s)"
    "is_batch l = Inr (batch_marked l)" "job_id l = s"
  using assms by (simp_all add: getitem_def stripped_id_def is_batch_def batch_marked_def job_id_def)

lemma fillInJob_absorbed:
  assumes "map fst j = map fst b" "batch_marked b"
  shows "fillInJob j b = Inr (absorbed (j, Some b))"
proof (cases "has_key j ''MaxRSS''")
  case True
  then have "has_key b ''MaxRSS''" using assms(1) by (simp add: has_key_keys)
  then obtain v where "map_of b ''MaxRSS'' = Some v" by (auto simp: has_key_def)
  then show ?thesis using True assms(2) by (simp add: fillInJob_def getitem_def)
next
  case False
  then show ?thesis by (simp add: fillInJob_def)
qed

lemma merge_loop_paired:
  assumes "\<forall>l \<in> set ls. map fst l = cols \<and> (\<exists>s. map_of l ''JobID'' = Some (S s))"
    and "\<forall>j. idjob st = Some j \<longrightarrow> map fst j = cols \<and> (\<exists>s. map_of j ''JobID'' = Some (S s))"
    and "paired_from (idjob st) ls"
  shows "\<exists>st'. merge_loop None st ls = Inr st'
           \<and> flush st' = sacct_mrg st @ merged_from (idjob st) ls"
  using assms
proof (induction ls arbitrary: st)
  case Nil
  then show ?case by (simp add: flush_def split: option.splits)
next
  case (Cons l ls)
  from Cons.prems(1) obtain s where s: "map_of l ''JobID'' = Some (S s)" and c: "map fst l = cols"
    by auto
  note ids = text_id[OF s]
  show ?case
  proof (cases "batch_marked l")
    case True
    with Cons.prems(3) obtain j where j: "idjob st = Some j"
      and m: "job_id j = remove_all ''.batch'' (job_id l)" and rest: "paired_from None ls"
      by (auto split: option.splits)
    from Cons.prems(2) j obtain sj where sj: "map_of j ''JobID'' = Some (S sj)" and cj: "map fst j = cols"
      by auto
    note idj = text_id[OF sj]
    let ?st = "\<lparr>idjob = None, sacct_mrg = sacct_mrg st @ [absorbed (j, Some l)]\<rparr>"
    have step: "merge_step None st l = Inr ?st"
      using True j m ids idj fillInJob_absorbed[of j l] c cj
      by (simp add: merge_step_def skipped_def)
    have "\<exists>st'. merge_loop None ?st ls = Inr st'
           \<and> flush st' = sacct_mrg ?st @ merged_from (idjob ?st) ls"
      using Cons.prems(1) rest by (intro Cons.IH) auto
    then show ?thesis using step True j by auto
  next
    case False
    let ?st = "\<lparr>idjob = Some l, sacct_mrg = flush st\<rparr>"
    have step: "merge_step None st l = Inr ?st"
      using False ids by (simp add: merge_step_def skipped_def)
    have "\<exists>st'. merge_loop None ?st ls = Inr st'
           \<and> flush st' = sacct_mrg ?st @ merged_from (idjob ?st) ls"
      using Cons.prems(1,3) False s c by (intro Cons.IH) auto
    then show ?thesis using step False by (auto simp: flush_def split: option.splits)
  qed
qed

lemma followers_fst: "map fst (followers ls) = ls"
  by (induction ls rule: followers.induct) auto

lemma merged_from_followers:
  "paired_from prev ls \<Longrightarrow>
   merged_from prev ls =
     (case prev of
        None \<Rightarrow> map absorbed (filter (\<lambda>p. \<not> batch_marked (fst p)) (followers ls))
      | Some j \<Rightarrow> map absorbed ((j, case ls of [] \<Rightarrow> None | n # _ \<Rightarrow> Some n)
                    # filter (\<lambda>p. \<not> batch_marked (fst p)) (followers ls)))"
proof (induction ls arbitrary: prev)
  case Nil
  then show ?case by (simp split: option.splits)
next
  case (Cons l ls)
  have f: "followers (l # ls) = (l, case ls of [] \<Rightarrow> None | n # _ \<Rightarrow> Some n) # followers ls"
    by (cases ls) auto
  show ?case
  proof (cases "batch_marked l")
    case True
    with Cons.prems obtain j where j: "prev = Some j" and rest: "paired_from None ls"
      by (auto split: option.splits)
    from Cons.IH[OF rest] show ?thesis using True j f by simp
  next
    case False
    with Cons.prems have "paired_from (Some l) ls" by simp
    from Cons.IH[OF this] show ?thesis using False f by (auto split: option.splits)
  qed
qed

lemma paired_from_index:
  assumes "\<forall>i < length ls. batch_marked (ls ! i) \<longrightarrow>
     (if i = 0 then (\<exists>j. prev = Some j \<and> job_id j = remove_all ''.batch'' (job_id (ls ! 0)))
      else \<not> batch_marked (ls ! (i - 1))
        \<and> job_id (ls ! (i - 1)) = remove_all ''.batch'' (job_id (ls ! i)))"
  shows "paired_from prev ls"
  using assms
proof (induction ls arbitrary: prev)
  case Nil
  then show ?case by simp
next
  case (Cons l ls)
  have rest: "paired_from (if batch_marked l then None else Some l) ls"
  proof (rule Cons.IH, intro allI impI)
    fix i assume i: "i < length ls" and b: "batch_marked (ls ! i)"
    from Cons.prems[rule_format, of "Suc i"] i b
    have "\<not> batch_marked ((l # ls) ! i)
        \<and> job_id ((l # ls) ! i) = remove_all ''.batch'' (job_id (ls ! i))"
      by simp
    then show "if i = 0
        then \<exists>j. (if batch_marked l then None else Some l) = Some j
               \<and> job_id j = remove_all ''.batch'' (job_id (ls ! 0))
        else \<not> batch_marked (ls ! (i - 1))
          \<and> job_id (ls ! (i - 1)) = remove_all ''.batch'' (job_id (ls ! i))"
      by (cases i) auto
  qed
  show ?case
  proof (cases "batch_marked l")
    case True
    with Cons.prems[rule_format, of 0] rest show ?thesis by auto
  next
    case False
    with rest show ?thesis by simp
  qed
qed

lemma batch_follows_job_paired: "batch_follows_job ls \<Longrightarrow> paired_from None ls"
  unfolding batch_follows_job_def by (rule paired_from_index) auto

lemma absorbed_keeps:
  "map fst (absorbed p) = map fst (fst p)
   \<and> (\<forall>c. c \<noteq> ''MaxRSS'' \<longrightarrow> map_of (absorbed p) c = map_of (fst p) c)"
  by (cases p rule: absorbed.cases) (auto simp: keys_setitem map_of_setitem split: option.splits)

lemma absorbed_carries:
  assumes "map fst j = map fst b" "batch_marked b"
  shows "map_of (absorbed (j, Some b)) ''MaxRSS'' = map_of b ''MaxRSS''"
proof (cases "has_key j ''MaxRSS''")
  case True
  then have "has_key b ''MaxRSS''" using assms(1) by (simp add: has_key_keys)
  then obtain v where "map_of b ''MaxRSS'' = Some v" by (auto simp: has_key_def)
  then show ?thesis using True assms(2) by (simp add: map_of_setitem)
next
  case False
  then have "\<not> has_key b ''MaxRSS''" using assms(1) by (simp add: has_key_keys)
  with False show ?thesis by (simp add: has_key_def)
qed

lemma followers_set: "(j, Some b) \<in> set (followers ls) \<Longrightarrow> j \<in> set ls \<and> b \<in> set ls"
  by (induction ls rule: followers.induct) auto

text \<open>
  Claim C2. Without a minimum identifier, when every line is built over the same
  columns with a textual \<^verbatim>\<open>JobID\<close> and every batch-marked line comes right after
  an unmarked line whose identifier is its own with the marker removed, the merge returns
  one line per unmarked input line, in input order: each is the input line, changed at
  most under \<^verbatim>\<open>MaxRSS\<close>, and a job line followed by a batch line holds under
  \<^verbatim>\<open>MaxRSS\<close> what the batch line holds.
\<close>

theorem merge_one_per_job:
  assumes "\<forall>l \<in> set ls. map fst l = cols \<and> (\<exists>s. map_of l ''JobID'' = Some (S s))"
    and "batch_follows_job ls"
  shows "merge None ls
           = Inr (map absorbed (filter (\<lambda>p. \<not> batch_marked (fst p)) (followers ls)))
     \<and> map fst (filter (\<lambda>p. \<not> batch_marked (fst p)) (followers ls))
           = filter (\<lambda>l. \<not> batch_marked l) ls
     \<and> (\<forall>p \<in> set (followers ls).
           map fst (absorbed p) = map fst (fst p)
           \<and> (\<forall>c. c \<noteq> ''MaxRSS'' \<longrightarrow> map_of (absorbed p) c = map_of (fst p) c))
     \<and> (\<forall>j b. (j, Some b) \<in> set (followers ls) \<and> batch_marked b \<longrightarrow>
           map_of (absorbed (j, Some b)) ''MaxRSS'' = map_of b ''MaxRSS'')"
proof -
  have p: "paired_from None ls" using assms(2) by (rule batch_follows_job_paired)
  have "\<exists>st'. merge_loop None \<lparr>idjob = None, sacct_mrg = []\<rparr> ls = Inr st'
           \<and> flush st' = sacct_mrg \<lparr>idjob = None, sacct_mrg = []\<rparr>
               @ merged_from (idjob \<lparr>idjob = None, sacct_mrg = []\<rparr>) ls"
    using assms(1) p by (intro merge_loop_paired[where cols = cols]) auto
  then have a: "merge None ls
      = Inr (map absorbed (filter (\<lambda>p. \<not> batch_marked (fst p)) (followers ls)))"
    using merged_from_followers[OF p] by (auto simp: merge_def)
  have b: "map fst (filter (\<lambda>p. \<not> batch_marked (fst p)) (followers ls))
      = filter (\<lambda>l. \<not> batch_marked l) ls"
    by (induction ls rule: followers.induct) auto
  have d: "map_of (absorbed (j, Some b)) ''MaxRSS'' = map_of b ''MaxRSS''"
    if "(j, Some b) \<in> set (followers ls)" "batch_marked b" for j b
  proof (rule absorbed_carries)
    from followers_set[OF that(1)] assms(1) show "map fst j = map fst b" by simp
    show "batch_marked b" by (rule that(2))
  qed
  show ?thesis
  proof (intro conjI)
    show "merge None ls
      = Inr (map absorbed (filter (\<lambda>p. \<not> batch_marked (fst p)) (followers ls)))"
      by (rule a)
    show "map fst (filter (\<lambda>p. \<not> batch_marked (fst p)) (followers ls))
      = filter (\<lambda>l. \<not> batch_marked l) ls"
      by (rule b)
    show "\<forall>p \<in> set (followers ls).
           map fst (absorbed p) = map fst (fst p)
           \<and> (\<forall>c. c \<noteq> ''MaxRSS'' \<longrightarrow> map_of (absorbed p) c = map_of (fst p) c)"
      using absorbed_keeps by blast
    show "\<forall>j b. (j, Some b) \<in> set (followers ls) \<and> batch_marked b \<longrightarrow>
           map_of (absorbed (j, Some b)) ''MaxRSS'' = map_of b ''MaxRSS''"
      using d by blast
  qed
qed


theorem merge_one_per_job_witness:
  "batch_follows_job
     [[(''JobID'', S ''1''), (''MaxRSS'', S ''.'')],
      [(''JobID'', S ''1.batch''), (''MaxRSS'', I 7)],
      [(''JobID'', S ''2''), (''MaxRSS'', S ''.'')]]
   \<and> merge None
     [[(''JobID'', S ''1''), (''MaxRSS'', S ''.'')],
      [(''JobID'', S ''1.batch''), (''MaxRSS'', I 7)],
      [(''JobID'', S ''2''), (''MaxRSS'', S ''.'')]]
     = Inr [[(''JobID'', S ''1''), (''MaxRSS'', I 7)],
            [(''JobID'', S ''2''), (''MaxRSS'', S ''.'')]]"
proof -
  let ?ls = "[[(''JobID'', S ''1''), (''MaxRSS'', S ''.'')],
      [(''JobID'', S ''1.batch''), (''MaxRSS'', I 7)],
      [(''JobID'', S ''2''), (''MaxRSS'', S ''.'')]]"
  have m: "\<not> batch_marked [(''JobID'', S ''1''), (''MaxRSS'', S ''.'')]"
    "batch_marked [(''JobID'', S ''1.batch''), (''MaxRSS'', I 7)]"
    "\<not> batch_marked [(''JobID'', S ''2''), (''MaxRSS'', S ''.'')]"
    by (simp_all add: batch_marked_def job_id_def startswith_def)
  have h1: "\<forall>l \<in> set ?ls. map fst l = [''JobID'', ''MaxRSS'']
      \<and> (\<exists>s. map_of l ''JobID'' = Some (S s))"
    by simp
  have h2: "batch_follows_job ?ls"
    unfolding batch_follows_job_def
  proof (intro allI impI)
    fix i assume "i < length ?ls" and b: "batch_marked (?ls ! i)"
    then have "i = 0 \<or> i = 1 \<or> i = 2" by auto
    with b m have "i = 1" by auto
    then show "0 < i \<and> \<not> batch_marked (?ls ! (i - 1))
        \<and> job_id (?ls ! (i - 1)) = remove_all ''.batch'' (job_id (?ls ! i))"
      using m by (simp add: job_id_def startswith_def)
  qed
  from merge_one_per_job[OF h1 h2] h2 m show ?thesis
    by (simp add: has_key_def)
qed

lemma merge_step_mismatch:
  assumes "idjob st = Some j" "map_of j ''JobID'' = Some (S sj)" "map_of l ''JobID'' = Some (S s)"
    "contains ''.batch'' s" "sj \<noteq> remove_all ''.batch'' s"
  shows "merge_loop None st (l # rest)
    = Inl (Abort (Exception ''Cannot find job id'') [j, l])"
  using assms
  by (simp add: merge_step_def skipped_def is_batch_def getitem_def stripped_id_def)

text \<open>
  Claim C3. A batch-marked line that no job line precedes: the merge ends with the
  \<^verbatim>\<open>TypeError\<close> of subscripting \<^verbatim>\<open>None\<close>, and neither line has been printed.
  Where a job line is pending and its identifier differs (\<open>merge_step_mismatch\<close>),
  both lines are printed and the exception is the one the source raises on purpose.
\<close>

theorem merge_batch_without_job:
  "merge None [[(''JobID'', S ''1.batch'')]] = Inl (Abort TypeError [])"
  by (simp add: merge_def merge_step_def skipped_def is_batch_def getitem_def startswith_def)

lemma skipped_iff:
  assumes "map_of l ''JobID'' = Some (S s)" "py_int (remove_all ''.batch'' s) = Inr n"
  shows "skipped (Some f) l = Inr (n \<le> f)"
  using assms by (simp add: skipped_def stripped_id_def getitem_def)

text \<open>
  Claim C4. With the minimum identifier 5, the line of job 5 is skipped and the line of
  job 6 is kept: a line is skipped when its identifier is at most the threshold
  (\<open>skipped_iff\<close>), not only when it is below.
\<close>

theorem merge_fromId_equal_skipped:
  "merge (Some 5) [[(''JobID'', S ''5'')]] = Inr []
   \<and> merge (Some 5) [[(''JobID'', S ''6'')]] = Inr [[(''JobID'', S ''6'')]]"
  by code_simp

section \<open>The sorter\<close>

lemma insort_key_map:
  "insort_key k (g x) (map g xs) = map g (insort_key (\<lambda>a. k (g a)) x xs)"
  by (induction xs) auto

lemma sort_key_map: "sort_key k (map g xs) = map g (sort_key (\<lambda>a. k (g a)) xs)"
  by (induction xs) (auto simp: insort_key_map)

lemma insort_key_cong_order:
  assumes "\<forall>y \<in> set xs. (f x \<le> f y) = (g x \<le> g y)"
  shows "insort_key f x xs = insort_key g x xs"
  using assms by (induction xs) auto

lemma sort_key_cong_order:
  assumes "\<forall>x \<in> set xs. \<forall>y \<in> set xs. (f x \<le> f y) = (g x \<le> g y)"
  shows "sort_key f xs = sort_key g xs"
  using assms
proof (induction xs)
  case Nil
  then show ?case by simp
next
  case (Cons x xs)
  then have "sort_key f xs = sort_key g xs" by simp
  moreover have "insort_key f x (sort_key g xs) = insort_key g x (sort_key g xs)"
    using Cons.prems by (intro insort_key_cong_order) simp
  ultimately show ?case by simp
qed

lemma stable_sort_zip:
  "stable_sort reverse (zip (map f ls) ls)
     = (if reverse then rev (sort_key f (rev ls)) else sort_key f ls)"
proof -
  have z: "zip (map f ls) ls = map (\<lambda>l. (f l, l)) ls"
    by (induction ls) auto
  have "map snd (sort_key fst (map (\<lambda>l. (f l, l)) xs)) = sort_key f xs" for xs
    by (simp add: sort_key_map comp_def)
  note a = this
  have "map snd (rev (sort_key fst (map (\<lambda>l. (f l, l)) (rev ls)))) = rev (sort_key f (rev ls))"
    using a[of "rev ls"] by (metis rev_map)
  with a[of ls] show ?thesis
    by (simp add: stable_sort_def z rev_map)
qed

lemma key_values_all:
  "\<forall>l \<in> set ls. map_of l s \<noteq> None \<Longrightarrow> key_values s ls = Inr (map (\<lambda>l. cell l s) ls)"
  by (induction ls) (auto simp: getitem_def cell_def)


lemma all_str_map: "all_str (map S ss) = Some ss"
  by (induction ss) auto

lemma all_int_map: "all_int (map I ns) = Some ns"
  by (induction ns) auto

lemma all_str_int: "ns \<noteq> [] \<Longrightarrow> all_str (map I ns) = None"
  by (cases ns) auto

lemma sorted_by_uniform:
  assumes "uniform_column s ls"
  shows "sorted_by s reverse ls
    = Inr (if reverse then rev (sort_key (\<lambda>l. rank (cell l s)) (rev ls))
           else sort_key (\<lambda>l. rank (cell l s)) ls)"
proof -
  from assms consider
    (str) "\<forall>l \<in> set ls. \<exists>t. map_of l s = Some (S t)"
    | (int) "ls \<noteq> []" "\<forall>l \<in> set ls. \<exists>i. map_of l s = Some (I i)"
    by (cases ls) (auto simp: uniform_column_def)
  then show ?thesis
  proof cases
    case str
    define f where "f = (\<lambda>l. case cell l s of S t \<Rightarrow> t | I i \<Rightarrow> [])"
    have c: "cell l s = S (f l)" if "l \<in> set ls" for l
      using str that by (auto simp: f_def cell_def)
    have kv: "key_values s ls = Inr (map S (map f ls))"
      using str c by (subst key_values_all) auto
    have o: "\<forall>x \<in> set xs. \<forall>y \<in> set xs. (f x \<le> f y) = (rank (cell x s) \<le> rank (cell y s))"
      if "set xs = set ls" for xs
      using c that by simp
    have "sort_key f ls = sort_key (\<lambda>l. rank (cell l s)) ls"
      by (rule sort_key_cong_order) (rule o, simp)
    moreover have "sort_key f (rev ls) = sort_key (\<lambda>l. rank (cell l s)) (rev ls)"
      by (rule sort_key_cong_order) (rule o, simp)
    moreover have "sorted_by s reverse ls = Inr (stable_sort reverse (zip (map f ls) ls))"
      unfolding sorted_by_def kv by (simp add: all_str_map del: map_map)
    ultimately show ?thesis
      by (simp add: stable_sort_zip)
  next
    case int
    define f where "f = (\<lambda>l. case cell l s of I i \<Rightarrow> i | S t \<Rightarrow> 0)"
    have c: "cell l s = I (f l)" if "l \<in> set ls" for l
      using int that by (auto simp: f_def cell_def)
    have kv: "key_values s ls = Inr (map I (map f ls))"
      using int c by (subst key_values_all) auto
    have o: "\<forall>x \<in> set xs. \<forall>y \<in> set xs. (f x \<le> f y) = (rank (cell x s) \<le> rank (cell y s))"
      if "set xs = set ls" for xs
      using c that by (auto simp: less_eq_prod_def)
    have "sort_key f ls = sort_key (\<lambda>l. rank (cell l s)) ls"
      by (rule sort_key_cong_order) (rule o, simp)
    moreover have "sort_key f (rev ls) = sort_key (\<lambda>l. rank (cell l s)) (rev ls)"
      by (rule sort_key_cong_order) (rule o, simp)
    moreover have "all_str (map I (map f ls)) = None"
      using int(1) by (intro all_str_int) simp
    then have "sorted_by s reverse ls = Inr (stable_sort reverse (zip (map f ls) ls))"
      unfolding sorted_by_def kv by (simp add: all_int_map del: map_map)
    ultimately show ?thesis
      by (simp add: stable_sort_zip)
  qed
qed

lemma sort_key_name_eq: "sort_key_name k = (endswith k ''-'', if endswith k ''-'' then butlast k else k)"
  by (simp add: sort_key_name_def)

lemma set_by_key: "set (by_key k ls) = set ls"
  by (simp add: by_key_def)

lemma uniform_column_by_key: "uniform_column s (by_key k ls) = uniform_column s ls"
  by (simp add: uniform_column_def set_by_key)

lemma sort_loop_step:
  assumes "uniform_column (snd (sort_key_name k)) ls"
  shows "sort_loop (k # keys) ls err = sort_loop keys (by_key k ls) err"
  using assms sorted_by_uniform[of "snd (sort_key_name k)" ls "fst (sort_key_name k)"]
  by (simp add: sort_key_name_eq by_key_def)

lemma sort_loop_uniform:
  assumes "\<forall>k \<in> set keys. uniform_column (snd (sort_key_name k)) ls"
  shows "sort_loop keys ls err = (err, Inr (fold by_key keys ls))"
  using assms
proof (induction keys arbitrary: ls)
  case Nil
  then show ?case by simp
next
  case (Cons k keys)
  have "sort_loop (k # keys) ls err = sort_loop keys (by_key k ls) err"
    using Cons.prems by (intro sort_loop_step) simp
  also have "\<dots> = (err, Inr (fold by_key keys (by_key k ls)))"
    using Cons.prems by (intro Cons.IH) (simp add: uniform_column_by_key)
  finally show ?case by simp
qed

lemma by_key_mset: "mset (by_key k ls) = mset ls"
  by (simp add: by_key_def)

lemma by_key_sorted:
  "if endswith k ''-''
   then sorted_wrt (\<lambda>a b. rank (cell a (butlast k)) \<ge> rank (cell b (butlast k))) (by_key k ls)
   else sorted_wrt (\<lambda>a b. rank (cell a k) \<le> rank (cell b k)) (by_key k ls)"
proof -
  have "sorted (map f (sort_key f xs))" for f :: "line \<Rightarrow> int \<times> string" and xs
    by simp
  then have a: "sorted_wrt (\<lambda>a b. f a \<le> f b) (sort_key f xs)"
    for f :: "line \<Rightarrow> int \<times> string" and xs
    by (simp add: sorted_map)
  have "sorted_wrt (\<lambda>a b. f a \<ge> f b) (rev (sort_key f xs))"
    for f :: "line \<Rightarrow> int \<times> string" and xs
    using a[of f xs] by (simp add: sorted_wrt_rev)
  with a show ?thesis by (simp add: by_key_def)
qed

lemma by_key_stable:
  "filter (\<lambda>l. cell l (snd (sort_key_name k)) = v) (by_key k ls)
     = filter (\<lambda>l. cell l (snd (sort_key_name k)) = v) ls"
proof -
  have st: "filter (\<lambda>l. cell l s = v) (sort_key (\<lambda>l. rank (cell l s)) xs)
      = filter (\<lambda>l. cell l s = v) xs" for s xs
  proof -
    have "filter (\<lambda>l. cell l s = v) ys
        = filter (\<lambda>l. cell l s = v) (filter (\<lambda>l. rank (cell l s) = rank v) ys)" for ys
      by (induction ys) auto
    from this[of "sort_key (\<lambda>l. rank (cell l s)) xs"] this[of xs] show ?thesis
      by (simp only: sort_key_stable)
  qed
  have "filter (\<lambda>l. cell l s = v) (rev (sort_key (\<lambda>l. rank (cell l s)) (rev xs)))
      = filter (\<lambda>l. cell l s = v) xs" for s xs
    using st[of s "rev xs"] by (simp add: rev_filter[symmetric])
  with st show ?thesis by (simp add: by_key_def sort_key_name_eq)
qed

text \<open>
  Claim C6, amended. When each sort column holds only strings or only integers, the
  sorter writes no warning and returns the lines sorted by the declared keys from the
  last to the first, so \<open>sorter [k1, k2] ls = by_key k1 (by_key k2 ls)\<close> and the first
  key dominates. Each \<open>by_key\<close> permutes the lines, leaves them ascending in the
  column's values, or descending for a key that ends with \<^verbatim>\<open>-\<close>, and keeps lines
  with equal values in the order they had; the values are ordered as stored, strings
  lexicographically and integers by value. Lines with ids 3, 1, 2 come out as 1, 2, 3
  under \<^verbatim>\<open>id\<close> and as 3, 2, 1 under \<^verbatim>\<open>id-\<close>.
\<close>

theorem sorter_stable_composition:
  assumes "\<forall>k \<in> set keys. uniform_column (snd (sort_key_name k)) ls"
  shows "sorter keys ls = ([], Inr (foldr by_key keys ls))
    \<and> (\<forall>k xs.
          mset (by_key k xs) = mset xs
          \<and> (if endswith k ''-''
             then sorted_wrt (\<lambda>a b. rank (cell a (butlast k)) \<ge> rank (cell b (butlast k)))
                    (by_key k xs)
             else sorted_wrt (\<lambda>a b. rank (cell a k) \<le> rank (cell b k)) (by_key k xs))
          \<and> (\<forall>v. filter (\<lambda>l. cell l (snd (sort_key_name k)) = v) (by_key k xs)
                 = filter (\<lambda>l. cell l (snd (sort_key_name k)) = v) xs))
    \<and> sorter [''id''] [[(''id'', S ''3'')], [(''id'', S ''1'')], [(''id'', S ''2'')]]
        = ([], Inr [[(''id'', S ''1'')], [(''id'', S ''2'')], [(''id'', S ''3'')]])
    \<and> sorter [''id-''] [[(''id'', S ''3'')], [(''id'', S ''1'')], [(''id'', S ''2'')]]
        = ([], Inr [[(''id'', S ''3'')], [(''id'', S ''2'')], [(''id'', S ''1'')]])"
proof (intro conjI)
  have "\<forall>k \<in> set (rev keys). uniform_column (snd (sort_key_name k)) ls"
    using assms by simp
  then show "sorter keys ls = ([], Inr (foldr by_key keys ls))"
    unfolding sorter_def by (subst sort_loop_uniform) (simp_all add: foldr_conv_fold)
  show "\<forall>k xs.
          mset (by_key k xs) = mset xs
          \<and> (if endswith k ''-''
             then sorted_wrt (\<lambda>a b. rank (cell a (butlast k)) \<ge> rank (cell b (butlast k)))
                    (by_key k xs)
             else sorted_wrt (\<lambda>a b. rank (cell a k) \<le> rank (cell b k)) (by_key k xs))
          \<and> (\<forall>v. filter (\<lambda>l. cell l (snd (sort_key_name k)) = v) (by_key k xs)
                 = filter (\<lambda>l. cell l (snd (sort_key_name k)) = v) xs)"
    using by_key_mset by_key_sorted by_key_stable by blast
  show "sorter [''id''] [[(''id'', S ''3'')], [(''id'', S ''1'')], [(''id'', S ''2'')]]
        = ([], Inr [[(''id'', S ''1'')], [(''id'', S ''2'')], [(''id'', S ''3'')]])"
    by code_simp
  show "sorter [''id-''] [[(''id'', S ''3'')], [(''id'', S ''1'')], [(''id'', S ''2'')]]
        = ([], Inr [[(''id'', S ''3'')], [(''id'', S ''2'')], [(''id'', S ''1'')]])"
    by code_simp
qed

theorem sorter_stable_composition_witness:
  "uniform_column ''n'' [[(''id'', I 2), (''n'', S ''a'')], [(''id'', I 10), (''n'', S ''b'')],
        [(''id'', I 2), (''n'', S ''c'')]]
   \<and> uniform_column ''id'' [[(''id'', I 2), (''n'', S ''a'')], [(''id'', I 10), (''n'', S ''b'')],
        [(''id'', I 2), (''n'', S ''c'')]]
   \<and> sorter [''id'', ''n-'']
       [[(''id'', I 2), (''n'', S ''a'')], [(''id'', I 10), (''n'', S ''b'')],
        [(''id'', I 2), (''n'', S ''c'')]]
     = ([], Inr [[(''id'', I 2), (''n'', S ''c'')], [(''id'', I 2), (''n'', S ''a'')],
                 [(''id'', I 10), (''n'', S ''b'')]])"
proof -
  let ?ls = "[[(''id'', I 2), (''n'', S ''a'')], [(''id'', I 10), (''n'', S ''b'')],
        [(''id'', I 2), (''n'', S ''c'')]]"
  have u: "uniform_column ''n'' ?ls" "uniform_column ''id'' ?ls"
    by (simp_all add: uniform_column_def)
  have n: "sort_key_name ''id'' = (False, ''id'')" "sort_key_name ''n-'' = (True, ''n'')"
    by (simp_all add: sort_key_name_def endswith_def)
  have h: "\<forall>k \<in> set [''id'', ''n-'']. uniform_column (snd (sort_key_name k)) ?ls"
    using u n by simp
  have e: "foldr by_key [''id'', ''n-''] ?ls
     = [[(''id'', I 2), (''n'', S ''c'')], [(''id'', I 2), (''n'', S ''a'')],
        [(''id'', I 10), (''n'', S ''b'')]]"
    by code_simp
  from sorter_stable_composition[OF h] u e show ?thesis by simp
qed

text \<open>
  The claim as stated, a sort on each key's string value, fails on a memory column:
  \<^verbatim>\<open>normalizeMem\<close> stores integers there, and 9 sorts before 10 while the text
  \<^verbatim>\<open>10\<close> sorts before \<^verbatim>\<open>9\<close>.
\<close>

theorem sorter_by_text_counterexample:
  "snd (sorter [''MaxRSS''] [[(''MaxRSS'', I 10)], [(''MaxRSS'', I 9)]])
     = Inr [[(''MaxRSS'', I 9)], [(''MaxRSS'', I 10)]]
   \<and> foldr by_text [''MaxRSS''] [[(''MaxRSS'', I 10)], [(''MaxRSS'', I 9)]]
     = [[(''MaxRSS'', I 10)], [(''MaxRSS'', I 9)]]
   \<and> snd (sorter [''MaxRSS''] [[(''MaxRSS'', I 10)], [(''MaxRSS'', I 9)]])
     \<noteq> Inr (foldr by_text [''MaxRSS''] [[(''MaxRSS'', I 10)], [(''MaxRSS'', I 9)]])"
  by code_simp



section \<open>The presenter\<close>

lemma strip_ansi_colour:
  "strip_ansi (colour ''31'' ''FAILED'') = ''FAILED''"
  "strip_ansi (colour ''32'' ''COMPLETED'') = ''COMPLETED''"
  "strip_ansi (colour ''94'' ''RUNNING'') = ''RUNNING''"
  by (simp_all add: colour_def is_digit_def)

lemma strip_ansi_plain:
  "strip_ansi ''FAILED'' = ''FAILED''" "strip_ansi ''COMPLETED'' = ''COMPLETED''"
  "strip_ansi ''RUNNING'' = ''RUNNING''"
  by simp_all

lemma strip_ansi_colorize:
  "i < length vs \<Longrightarrow> strip_ansi (str (colorize vs ! i)) = strip_ansi (str (vs ! i))"
  by (simp add: colorize_def strip_ansi_colour strip_ansi_plain del: strip_ansi.simps)

lemma cells_loop_colorize:
  "\<forall>i \<in> set is. i < length vs \<Longrightarrow>
   cells_loop header (colorize vs) is widths = cells_loop header vs is widths"
  by (induction "is" arbitrary: widths) (simp_all add: strip_ansi_colorize Let_def)

lemma widths_loop_color:
  "widths_loop header False data widths = widths_loop header True data widths"
  by (induction data arbitrary: widths)
     (auto simp: cells_loop_colorize Let_def split: sum.splits)

lemma getColumnWidths_color:
  "getColumnWidths sacct_out header space False = getColumnWidths sacct_out header space True"
  unfolding getColumnWidths_def by (simp only: widths_loop_color)

lemma cells_loop_max:
  assumes "distinct is" "\<forall>i \<in> set is. i < length header"
  shows "\<exists>ws. cells_loop header vs is widths = Inr ws \<and> length ws = length widths
    \<and> (\<forall>i < length widths. ws ! i =
          (if i \<in> set is then max (widths ! i) (length (printable header i (vs ! i)))
           else widths ! i))"
  using assms
proof (induction "is" arbitrary: widths)
  case Nil
  then show ?case by simp
next
  case (Cons k rest)
  let ?w = "if widths ! k < length (printable header k (vs ! k))
            then widths[k := length (printable header k (vs ! k))] else widths"
  have k: "k < length header" "k \<notin> set rest" using Cons.prems by auto
  have step: "cells_loop header vs (k # rest) widths = cells_loop header vs rest ?w"
    using k(1) by (simp add: printable_def Let_def)
  from Cons.IH[of ?w] Cons.prems obtain ws where ws: "cells_loop header vs rest ?w = Inr ws"
    "length ws = length ?w"
    "\<forall>i < length ?w. ws ! i =
          (if i \<in> set rest then max (?w ! i) (length (printable header i (vs ! i)))
           else ?w ! i)"
    by auto
  have "ws ! i = (if i \<in> set (k # rest)
           then max (widths ! i) (length (printable header i (vs ! i))) else widths ! i)"
    if "i < length widths" for i
  proof (cases "i = k")
    case True
    then show ?thesis using ws(3) that k(2) by (auto simp: max_def)
  next
    case False
    then show ?thesis using ws(3) that by auto
  qed
  then show ?case using step ws(1,2) by auto
qed

lemma widths_loop_max:
  assumes "length widths = n" "n \<le> length header" "\<forall>line \<in> set data. length line = n"
  shows "widths_loop header nc data widths
    = Inr (map (\<lambda>i. Max (insert (widths ! i)
              ((\<lambda>line. length (printable header i (map snd line ! i))) ` set data))) [0..<n])"
  using assms(1,3)
proof (induction data arbitrary: widths)
  case Nil
  then show ?case using map_nth[of widths] by simp
next
  case (Cons line data)
  have len: "length line = n" using Cons.prems by simp
  have w1: "(if length widths = 0 then replicate (length line) 0 else widths) = widths"
    using Cons.prems(1) len by auto
  have "widths_loop header nc (line # data) widths
      = widths_loop header True (line # data) widths"
    by (cases nc) (simp_all only: widths_loop_color)
  also obtain ws where ws: "cells_loop header (map snd line) [0..<n] widths = Inr ws"
    "length ws = length widths"
    "\<forall>i < length widths. ws ! i =
          (if i \<in> set [0..<n] then max (widths ! i) (length (printable header i (map snd line ! i)))
           else widths ! i)"
    using cells_loop_max[of "[0..<n]" header "map snd line" widths] assms(2) by auto
  have "widths_loop header True (line # data) widths = widths_loop header True data ws"
    using ws(1,2) len Cons.prems(1) by auto
  also have "\<dots> = widths_loop header nc data ws"
    by (cases nc) (simp_all only: widths_loop_color)
  also have "\<dots> = Inr (map (\<lambda>i. Max (insert (ws ! i)
              ((\<lambda>line. length (printable header i (map snd line ! i))) ` set data))) [0..<n])"
    using ws(2) Cons.prems by (intro Cons.IH) auto
  also have "\<dots> = Inr (map (\<lambda>i. Max (insert (widths ! i)
              ((\<lambda>line. length (printable header i (map snd line ! i))) ` set (line # data))))
              [0..<n])"
  proof -
    have "Max (insert (ws ! i) ((\<lambda>line. length (printable header i (map snd line ! i))) ` set data))
        = Max (insert (widths ! i)
            ((\<lambda>line. length (printable header i (map snd line ! i))) ` set (line # data)))"
      if "i < n" for i
    proof -
      let ?X = "(\<lambda>line. length (printable header i (map snd line ! i))) ` set data"
      have "ws ! i = max (widths ! i) (length (printable header i (map snd line ! i)))"
        using ws(3) that Cons.prems(1) by simp
      moreover have "finite ?X" by simp
      ultimately show ?thesis
        by (cases "?X = {}") (simp_all add: max.assoc insert_commute)
    qed
    then show ?thesis by simp
  qed
  finally show ?case .
qed

lemma setitem_new: "k \<notin> fst ` set l \<Longrightarrow> setitem l k v = l @ [(k, v)]"
  by (induction l) auto

lemma hdr_fold_distinct:
  "distinct (map fst acc @ header) \<Longrightarrow>
   foldl (\<lambda>hdr x. setitem hdr x (S x)) acc header = acc @ map (\<lambda>x. (x, S x)) header"
proof (induction header arbitrary: acc)
  case Nil
  then show ?case by simp
next
  case (Cons x header)
  have "x \<notin> fst ` set acc" using Cons.prems by auto
  then have "setitem acc x (S x) = acc @ [(x, S x)]" by (rule setitem_new)
  moreover have "distinct (map fst (acc @ [(x, S x)]) @ header)" using Cons.prems by auto
  ultimately show ?case using Cons.IH[of "acc @ [(x, S x)]"] by simp
qed

lemma hdr_of_distinct: "distinct header \<Longrightarrow> hdr_of header = map (\<lambda>x. (x, S x)) header"
  using hdr_fold_distinct[of "[]" header] by (simp add: hdr_of_def)

lemma widths_loop_start:
  "widths_loop header nc (line # data) []
     = widths_loop header nc (line # data) (replicate (length line) 0)"
  by (cases "length line = 0") simp_all

lemma getColumnWidths_max:
  assumes "distinct header" "\<forall>line \<in> set sacct_out. length line = length header"
  shows "getColumnWidths sacct_out header space no_color
     = Inr (map (\<lambda>i. column_width header sacct_out i + space) [0..<length header])"
proof -
  let ?hdr = "map (\<lambda>x. (x, S x)) header"
  let ?n = "length header"
  let ?f = "\<lambda>i line. length (printable header i (map snd line ! i))"
  have "widths_loop header no_color (?hdr # sacct_out) []
      = widths_loop header no_color (?hdr # sacct_out) (replicate ?n 0)"
    using widths_loop_start[of header no_color ?hdr sacct_out] by simp
  also have "\<dots> = Inr (map (\<lambda>i. Max (insert (replicate ?n 0 ! i)
              (?f i ` set (?hdr # sacct_out)))) [0..<?n])"
    using assms(2) by (intro widths_loop_max) auto
  also have "\<dots> = Inr (map (\<lambda>i. column_width header sacct_out i) [0..<?n])"
  proof -
    have "Max (insert (replicate ?n 0 ! i) (?f i ` set (?hdr # sacct_out)))
        = column_width header sacct_out i" if "i < ?n" for i
    proof -
      have "map (\<lambda>values. length (printable header i (values ! i)))
                (map S header # map (map snd) sacct_out)
          = map (?f i) (?hdr # sacct_out)"
        by (simp add: comp_def)
      then have "set (map (\<lambda>values. length (printable header i (values ! i)))
                (map S header # map (map snd) sacct_out))
          = ?f i ` set (?hdr # sacct_out)"
        by (simp only: set_map)
      then have c: "column_width header sacct_out i = Max (?f i ` set (?hdr # sacct_out))"
        by (simp only: column_width_def)
      have "Max (insert 0 (?f i ` set (?hdr # sacct_out))) = Max (?f i ` set (?hdr # sacct_out))"
        by (subst Max_insert) (auto simp del: set_simps simp add: max_def)
      with c that show ?thesis by simp
    qed
    then show ?thesis by simp
  qed
  finally show ?thesis
    using assms(1) by (simp add: getColumnWidths_def hdr_of_distinct comp_def)
qed

text \<open>
  Claim C8. For every header and rows, \<^verbatim>\<open>getColumnWidths\<close> returns the same with
  colouring as without, an exception included; when the header names are distinct and
  every row has as many fields as the header, each width is the longest printable text
  of the column, over the header and all rows, plus the padding 2; a column holding
  \<^verbatim>\<open>RUNNING\<close> and \<^verbatim>\<open>a\<close> has width 9 either way.
\<close>

theorem getColumnWidths_ignores_colour:
  "getColumnWidths sacct_out header space False = getColumnWidths sacct_out header space True
   \<and> (distinct header \<and> (\<forall>line \<in> set sacct_out. length line = length header) \<longrightarrow>
        getColumnWidths sacct_out header 2 no_color
          = Inr (map (\<lambda>i. column_width header sacct_out i + 2) [0..<length header]))
   \<and> getColumnWidths [[(''State'', S ''RUNNING'')], [(''State'', S ''a'')]] [''State''] 2 False
        = Inr [9]
   \<and> getColumnWidths [[(''State'', S ''RUNNING'')], [(''State'', S ''a'')]] [''State''] 2 True
        = Inr [9]"
proof (intro conjI impI)
  show "getColumnWidths sacct_out header space False = getColumnWidths sacct_out header space True"
    by (rule getColumnWidths_color)
  show "getColumnWidths sacct_out header 2 no_color
          = Inr (map (\<lambda>i. column_width header sacct_out i + 2) [0..<length header])"
    if "distinct header \<and> (\<forall>line \<in> set sacct_out. length line = length header)"
    using that by (intro getColumnWidths_max) auto
  show "getColumnWidths [[(''State'', S ''RUNNING'')], [(''State'', S ''a'')]] [''State''] 2 False
        = Inr [9]"
    by code_simp
  show "getColumnWidths [[(''State'', S ''RUNNING'')], [(''State'', S ''a'')]] [''State''] 2 True
        = Inr [9]"
    by code_simp
qed

theorem getColumnWidths_ignores_colour_witness:
  "distinct [''JobID'', ''State'']
   \<and> getColumnWidths
        [[(''JobID'', S ''12345.batch''), (''State'', S ''RUNNING'')],
         [(''JobID'', S ''7''), (''State'', S ''COMPLETED'')]] [''JobID'', ''State''] 2 False
      = Inr [7, 11]
   \<and> map (\<lambda>i. column_width [''JobID'', ''State'']
        [[(''JobID'', S ''12345.batch''), (''State'', S ''RUNNING'')],
         [(''JobID'', S ''7''), (''State'', S ''COMPLETED'')]] i + 2)
         [0..<length [''JobID'', ''State'']] = [7, 11]"
proof -
  let ?rows = "[[(''JobID'', S ''12345.batch''), (''State'', S ''RUNNING'')],
         [(''JobID'', S ''7''), (''State'', S ''COMPLETED'')]]"
  have h: "distinct [''JobID'', ''State''] \<and> (\<forall>line \<in> set ?rows. length line = length [''JobID'', ''State''])"
    by simp
  have e: "getColumnWidths ?rows [''JobID'', ''State''] 2 False = Inr [7, 11]"
    by code_simp
  have g: "getColumnWidths ?rows [''JobID'', ''State''] 2 False
      = Inr (map (\<lambda>i. column_width [''JobID'', ''State''] ?rows i + 2)
              [0..<length [''JobID'', ''State'']])"
    using getColumnWidths_ignores_colour[of ?rows "[''JobID'', ''State'']" 2 False] h by blast
  have "Inr (map (\<lambda>i. column_width [''JobID'', ''State''] ?rows i + 2)
              [0..<length [''JobID'', ''State'']]) = (Inr [7, 11] :: error + nat list)"
    by (rule trans[OF g[symmetric] e])
  then have "map (\<lambda>i. column_width [''JobID'', ''State''] ?rows i + 2)
              [0..<length [''JobID'', ''State'']] = [7, 11]"
    by (simp only: sum.inject)
  with e show ?thesis by simp
qed

lemma split_no_sep: "sep \<notin> set x \<Longrightarrow> split sep x = [x]"
  by (induction x) auto

lemma split_append: "sep \<notin> set x \<Longrightarrow> split sep (x @ sep # s) = x # split sep s"
  by (induction x) auto

lemma join_Cons: "xs \<noteq> [] \<Longrightarrow> join sep (x # xs) = x @ sep @ join sep xs"
  by (cases xs) simp_all

lemma split_join:
  assumes "xs \<noteq> []" "\<forall>x \<in> set xs. sep \<notin> set x"
  shows "split sep (join [sep] xs) = xs"
  using assms
proof (induction xs)
  case Nil
  then show ?case by simp
next
  case (Cons x xs)
  show ?case
  proof (cases "xs = []")
    case True
    with Cons.prems show ?thesis by (simp add: split_no_sep)
  next
    case False
    with Cons have "split sep (join [sep] xs) = xs" by simp
    with False Cons.prems show ?thesis by (simp add: join_Cons split_append)
  qed
qed

text \<open>
  Claim C9, amended. In tab-separated mode a line with at least one value, none of whose
  texts holds a tab, is rendered as a string that splits on tabs into exactly the texts
  of its values.
\<close>

theorem tabulate_tsv_roundtrip:
  assumes "line \<noteq> []" "\<forall>x \<in> set line. CHR 0x09 \<notin> set (str x)"
  shows "\<exists>out. tabulate line col_widths True no_color = Inr out
           \<and> split (CHR 0x09) out = map str line"
  using assms split_join[of "map str line" "CHR 0x09"] by (simp add: tabulate_def)

theorem tabulate_tsv_roundtrip_witness:
  "list_all (\<lambda>x. CHR 0x09 \<notin> set (str x)) [S ''7'', S ''RUNNING'', I 12]
   \<and> tabulate [S ''7'', S ''RUNNING'', I 12] [7, 11, 4] True False
       = Inr (''7'' @ [CHR 0x09] @ ''RUNNING'' @ [CHR 0x09] @ ''12'')
   \<and> split (CHR 0x09) (''7'' @ [CHR 0x09] @ ''RUNNING'' @ [CHR 0x09] @ ''12'')
       = [''7'', ''RUNNING'', ''12'']"
proof -
  have s: "show_int 12 = ''12''" by code_simp
  have h: "\<forall>x \<in> set [S ''7'', S ''RUNNING'', I 12]. CHR 0x09 \<notin> set (str x)"
    by (simp add: s)
  have t: "tabulate [S ''7'', S ''RUNNING'', I 12] [7, 11, 4] True False
       = Inr (''7'' @ [CHR 0x09] @ ''RUNNING'' @ [CHR 0x09] @ ''12'')"
    by (simp add: tabulate_def s)
  from tabulate_tsv_roundtrip[OF _ h, of "[7, 11, 4]" False] h t s
  show ?thesis by simp
qed

text \<open>
  The claim as stated, for every line, fails for a value that holds a tab: the one value
  comes back as two.
\<close>

theorem tabulate_tsv_tab_counterexample:
  "tabulate [S (''a'' @ [CHR 0x09] @ ''b'')] [] True True = Inr (''a'' @ [CHR 0x09] @ ''b'')
   \<and> split (CHR 0x09) (''a'' @ [CHR 0x09] @ ''b'') = [''a'', ''b'']
   \<and> [''a'', ''b''] \<noteq> map str [S (''a'' @ [CHR 0x09] @ ''b'')]"
  by (simp add: tabulate_def)

section \<open>Timestamps\<close>

lemma parse_column_text:
  assumes "\<forall>l \<in> set data. \<exists>v. map_of l c = Some (S v)"
  shows "parse_column c data = Inr (map (\<lambda>l. date_of (stamp l c)) data)"
  using assms
  by (induction data) (auto simp: getitem_def stamp_def date_of_def)

lemma not_digit_seps: "\<not> is_digit CHR ''T''" "\<not> is_digit CHR '':''" "\<not> is_digit CHR ''-''"
  by (simp_all add: is_digit_def)

lemma padded_rest:
  assumes "iso_padded v"
  shows "sub_T (sub_year_month v) = take 2 (drop 8 v) @ '' '' @ drop 11 v"
proof -
  from assms obtain y1 y2 y3 y4 m1 m2 d1 d2 h1 h2 n1 n2 s1 s2 where
    v: "v = [y1, y2, y3, y4, CHR ''-'', m1, m2, CHR ''-'', d1, d2, CHR ''T'', h1, h2, CHR '':'',
             n1, n2, CHR '':'', s1, s2]"
    and d: "is_digit y1" "is_digit y2" "is_digit y3" "is_digit y4" "is_digit m1" "is_digit m2"
      "is_digit d1" "is_digit d2" "is_digit h1" "is_digit h2" "is_digit n1" "is_digit n2"
      "is_digit s1" "is_digit s2"
    by (cases v rule: iso_padded.cases) auto
  have nT: "c \<noteq> CHR ''T''" if "is_digit c" for c using that not_digit_seps by auto
  have "sub_year_month v = [d1, d2, CHR ''T'', h1, h2, CHR '':'', n1, n2, CHR '':'', s1, s2]"
    by (simp add: v d not_digit_seps)
  then show ?thesis by (simp add: v sub_T_def d nT)
qed

lemma simplify_lines_weekday:
  assumes "\<forall>l \<in> set data. \<exists>v. map_of l c = Some (S v) \<and> date_of v \<noteq> None"
  shows "simplify_lines True True False c data (map (\<lambda>l. date_of (stamp l c) \<noteq> None) data)
     = Inr (map (\<lambda>l. setitem l c
              (S (weekday_abbr (stamp l c) @ '' '' @ sub_T (sub_year_month (stamp l c))))) data)"
  using assms
proof (induction data)
  case Nil
  then show ?case by simp
next
  case (Cons l data)
  from Cons.prems obtain v y m d where v: "map_of l c = Some (S v)" "date_of v = Some (y, m, d)"
    by auto
  then obtain t where t: "strptime v = Some (y, m, d, t)"
    by (auto simp: date_of_def)
  have "simplify_value True True False True (S v)
      = Inr (S (weekday_abbr v @ '' '' @ sub_T (sub_year_month v)))"
    using v(2) t by (simp add: simplify_value_def weekday_abbr_def)
  moreover have "stamp l c = v" using v(1) by (simp add: stamp_def)
  moreover have "getitem l c = Inr (S v)" using v(1) by (simp add: getitem_def)
  ultimately show ?case using Cons v(2) by simp
qed

text \<open>
  Claim C5, amended. When every value of the column is a timestamp written as
  \<^verbatim>\<open>YYYY-MM-DDTHH:MM:SS\<close> that parses to a date in today's year and month, and
  not all are today's, every value becomes the abbreviated weekday, a blank, the two
  digits of the day of the month, a blank and the time: only the year and the month are
  dropped.
\<close>

theorem simplify_datetime_same_month:
  assumes "\<forall>l \<in> set data. \<exists>v d. map_of l c = Some (S v) \<and> iso_padded v
              \<and> date_of v = Some (ty, tm, d)"
    and "\<exists>l \<in> set data. date_of (stamp l c) \<noteq> Some (ty, tm, td)"
  shows "simplify_datetime (ty, tm, td) data c
     = Inr (map (\<lambda>l. setitem l c (S (day_and_time (stamp l c)))) data)"
proof -
  let ?dt = "map (\<lambda>l. date_of (stamp l c)) data"
  have st: "\<exists>d. iso_padded (stamp l c) \<and> date_of (stamp l c) = Some (ty, tm, d)"
    if "l \<in> set data" for l
    using assms(1) that by (fastforce simp: stamp_def)
  have p: "parse_column c data = Inr ?dt"
    using assms(1) by (intro parse_column_text) blast
  have sy: "list_all (\<lambda>x. case x of None \<Rightarrow> True | Some (y, m, d) \<Rightarrow> y = ty) ?dt"
    using st by (fastforce simp: list_all_iff)
  have sm: "list_all (\<lambda>x. case x of None \<Rightarrow> True | Some (y, m, d) \<Rightarrow> m = tm) ?dt"
    using st by (fastforce simp: list_all_iff)
  have sd: "\<not> list_all (\<lambda>x. case x of None \<Rightarrow> True | Some (y, m, d) \<Rightarrow> d = td) ?dt"
  proof -
    from assms(2) obtain l where l: "l \<in> set data" "date_of (stamp l c) \<noteq> Some (ty, tm, td)"
      by blast
    with st[OF l(1)] obtain d where "date_of (stamp l c) = Some (ty, tm, d)" "d \<noteq> td"
      by auto
    with l(1) show ?thesis by (force simp: list_all_iff)
  qed
  have fl: "map (\<lambda>x. x \<noteq> None) ?dt = map (\<lambda>l. date_of (stamp l c) \<noteq> None) data"
    by simp
  have "simplify_datetime (ty, tm, td) data c
      = simplify_lines True True False c data (map (\<lambda>l. date_of (stamp l c) \<noteq> None) data)"
    unfolding simplify_datetime_def p using sy sm sd by (simp only: fl sum.case fst_conv snd_conv simp_thms)
  also have "\<dots> = Inr (map (\<lambda>l. setitem l c
              (S (weekday_abbr (stamp l c) @ '' '' @ sub_T (sub_year_month (stamp l c))))) data)"
    using assms(1) by (intro simplify_lines_weekday) fastforce
  also have "\<dots> = Inr (map (\<lambda>l. setitem l c (S (day_and_time (stamp l c)))) data)"
    using st by (auto simp: day_and_time_def padded_rest)
  finally show ?thesis .
qed

lemma may_third:
  "strptime ''2024-05-03T10:00:00'' = Some (2024, 5, 3, 10, 0, 0)"
  "weekday_name 2024 5 3 = ''Fri''"
proof -
  show "strptime ''2024-05-03T10:00:00'' = Some (2024, 5, 3, 10, 0, 0)" by code_simp
  have "toordinal 2024 5 3 = 739009"
    by (simp add: toordinal_def days_in_month_def is_leap_def upt_rec)
  then show "weekday_name 2024 5 3 = ''Fri''" by (simp add: weekday_name_def)
qed

lemma may_third_simplified:
  "simplify_datetime (2024, 5, 2) [[(''Start'', S ''2024-05-03T10:00:00'')]] ''Start''
       = Inr [[(''Start'', S ''Fri 03 10:00:00'')]]"
  by (simp add: simplify_datetime_def getitem_def simplify_value_def may_third is_digit_def
      sub_T_def)

theorem simplify_datetime_same_month_witness:
  "iso_padded ''2024-05-03T10:00:00'' \<and> date_of ''2024-05-03T10:00:00'' = Some (2024, 5, 3)
   \<and> simplify_datetime (2024, 5, 2) [[(''Start'', S ''2024-05-03T10:00:00'')]] ''Start''
       = Inr [[(''Start'', S ''Fri 03 10:00:00'')]]"
proof -
  have a: "iso_padded ''2024-05-03T10:00:00''" by (simp add: is_digit_def)
  have b: "date_of ''2024-05-03T10:00:00'' = Some (2024, 5, 3)"
    by (simp add: date_of_def may_third)
  have c: "stamp [(''Start'', S ''2024-05-03T10:00:00'')] ''Start'' = ''2024-05-03T10:00:00''"
    by (simp add: stamp_def)
  have d: "day_and_time ''2024-05-03T10:00:00'' = ''Fri 03 10:00:00''"
    by (simp add: day_and_time_def weekday_abbr_def b may_third)
  have h1: "\<forall>l \<in> set [[(''Start'', S ''2024-05-03T10:00:00'')]].
      \<exists>v d. map_of l ''Start'' = Some (S v) \<and> iso_padded v \<and> date_of v = Some (2024, 5, d)"
    using a b by simp
  have h2: "\<exists>l \<in> set [[(''Start'', S ''2024-05-03T10:00:00'')]].
      date_of (stamp l ''Start'') \<noteq> Some (2024, 5, 2)"
    using b c by simp
  from simplify_datetime_same_month[OF h1 h2] a b c d show ?thesis by simp
qed

text \<open>
  The claim as stated, weekday and time with the whole date dropped, fails: on the
  second of May 2024 the third of May at ten becomes \<^verbatim>\<open>Fri 03 10:00:00\<close>, not
  \<^verbatim>\<open>Fri 10:00:00\<close>.
\<close>

theorem simplify_datetime_keeps_day_counterexample:
  "simplify_datetime (2024, 5, 2) [[(''Start'', S ''2024-05-03T10:00:00'')]] ''Start''
       = Inr [[(''Start'', S ''Fri 03 10:00:00'')]]
   \<and> weekday_and_time ''2024-05-03T10:00:00'' = ''Fri 10:00:00''
   \<and> simplify_datetime (2024, 5, 2) [[(''Start'', S ''2024-05-03T10:00:00'')]] ''Start''
       \<noteq> Inr [[(''Start'', S (weekday_and_time ''2024-05-03T10:00:00''))]]"
proof -
  have "weekday_and_time ''2024-05-03T10:00:00'' = ''Fri 10:00:00''"
    by (simp add: weekday_and_time_def weekday_abbr_def date_of_def may_third)
  then show ?thesis by (simp add: may_third_simplified)
qed

section \<open>The latest timestamp\<close>



















end
